theory Spec2Isabelle
  imports Main
begin

section \<open>The relational store of server.js\<close>

text \<open>
  The three tables created by \<open>initializeDatabase\<close>. A table is the list of its rows in
  insertion order. Columns \<open>id\<close> and \<open>position\<close> are SQL \<open>INT\<close>; they are modelled as
  unbounded integers (the groups considered here are far below the 32-bit limit).
  The \<open>created_at\<close> time stamps play no part in any handler and are left out.
\<close>

record board_row =
  b_id :: int
  b_title :: string
  b_description :: string

record list_row =
  l_id :: int
  l_board_id :: int
  l_title :: string
  l_position :: int

record card_row =
  c_id :: int
  c_list_id :: int
  c_title :: string
  c_description :: string
  c_position :: int
  c_priority :: string
  c_due_date :: "string option"

text \<open>
  The state of the store: the tables and the \<open>AUTO_INCREMENT\<close> counters of \<open>lists\<close> and
  \<open>cards\<close>.
\<close>

record database =
  boards_tbl :: "board_row list"
  lists_tbl :: "list_row list"
  cards_tbl :: "card_row list"
  next_list_id :: int
  next_card_id :: int

subsection \<open>Statements and their failures\<close>

text \<open>
  Every \<open>db.query\<close>, \<open>db.beginTransaction\<close> and \<open>db.commit\<close> of a handler calls back with
  an error or with a result. Which call fails is an input of the model: a function from
  the statement site to the error message, \<open>None\<close> when the call succeeds.
\<close>

datatype stmt =
    Begin_transaction
  | Select_card
  | Shift_down
  | Shift_up
  | Close_gap
  | Open_slot
  | Update_card
  | Commit
  | Select_list
  | Select_board_lists
  | Update_list nat
  | Next_position
  | Insert_list
  | Insert_card
  | Update_card_fields
  | Delete_card_row
  | Delete_list_row

type_synonym failures = "stmt \<Rightarrow> string option"

definition no_failures :: failures where
  "no_failures = (\<lambda>_. None)"

datatype response =
    Json_success
  | Json_error nat string
  | Json_list list_row
  | Json_card card_row
  | Json_updated "string option"
  | Uncaught_TypeError

text \<open>\<open>UPDATE t SET ... WHERE ...\<close>, \<open>SELECT * FROM t WHERE ...\<close> and \<open>DELETE FROM t WHERE ...\<close>.\<close>

definition sql_update :: "('r \<Rightarrow> bool) \<Rightarrow> ('r \<Rightarrow> 'r) \<Rightarrow> 'r list \<Rightarrow> 'r list" where
  "sql_update cond upd rows = map (\<lambda>r. if cond r then upd r else r) rows"

definition sql_select :: "('r \<Rightarrow> bool) \<Rightarrow> 'r list \<Rightarrow> 'r list" where
  "sql_select cond rows = filter cond rows"

definition sql_delete :: "('r \<Rightarrow> bool) \<Rightarrow> 'r list \<Rightarrow> 'r list" where
  "sql_delete cond rows = filter (\<lambda>r. \<not> cond r) rows"

text \<open>
  \<open>db.rollback(() => res.status(s).json({error: msg}))\<close> in a request that has the
  connection to itself from \<open>db.beginTransaction\<close> on: the store is back at the state it
  had when the transaction began, and the error is the response. The handlers below are
  written for such a request; the connection that the requests share is modelled
  further down, statement by statement.
\<close>

definition rollback :: "database \<Rightarrow> nat \<Rightarrow> string \<Rightarrow> response \<times> database" where
  "rollback snapshot status msg = (Json_error status msg, snapshot)"

text \<open>
  The foreign key \<open>cards.list_id REFERENCES lists(id)\<close>: the store refuses a card row whose
  \<open>list_id\<close> is no list's id. The message stands for the driver's \<open>err.message\<close>.
\<close>

definition fk_message :: string where
  "fk_message = ''ER_NO_REFERENCED_ROW_2''"

definition list_exists :: "database \<Rightarrow> int \<Rightarrow> bool" where
  "list_exists db lid = (lid \<in> set (map l_id (lists_tbl db)))"

definition board_exists :: "database \<Rightarrow> int \<Rightarrow> bool" where
  "board_exists db bid = (bid \<in> set (map b_id (boards_tbl db)))"

section \<open>PUT /api/cards/:id/move\<close>

text \<open>
  \<open>updateCardPosition\<close>: the point update of the moved card, then the commit.
  \<open>snapshot\<close> is the state at \<open>beginTransaction\<close>, \<open>db\<close> the state after the shifts.
\<close>

definition updateCardPosition ::
  "failures \<Rightarrow> database \<Rightarrow> int \<Rightarrow> int \<Rightarrow> int \<Rightarrow> database \<Rightarrow> response \<times> database" where
  "updateCardPosition err snapshot cardId list_id position db =
     (case err Update_card of
        Some e \<Rightarrow> rollback snapshot 500 e
      | None \<Rightarrow>
          if \<not> list_exists db list_id then rollback snapshot 500 fk_message
          else
            let db' = db\<lparr>cards_tbl :=
                  sql_update (\<lambda>c. c_id c = cardId)
                    (\<lambda>c. c\<lparr>c_list_id := list_id, c_position := position\<rparr>) (cards_tbl db)\<rparr>
            in (case err Commit of
                  Some e \<Rightarrow> rollback snapshot 500 e
                | None \<Rightarrow> (Json_success, db')))"

definition move_card ::
  "failures \<Rightarrow> int \<Rightarrow> int \<Rightarrow> int \<Rightarrow> database \<Rightarrow> response \<times> database" where
  "move_card err cardId list_id position db =
     (case err Begin_transaction of
        Some e \<Rightarrow> (Json_error 500 e, db)
      | None \<Rightarrow>
     (case err Select_card of
        Some e \<Rightarrow> rollback db 500 e
      | None \<Rightarrow>
     (case sql_select (\<lambda>c. c_id c = cardId) (cards_tbl db) of
        [] \<Rightarrow> rollback db 404 ''Card not found''
      | currentCard # _ \<Rightarrow>
          if c_list_id currentCard = list_id then
            if position > c_position currentCard then
              (case err Shift_down of
                 Some e \<Rightarrow> rollback db 500 e
               | None \<Rightarrow>
                   updateCardPosition err db cardId list_id position
                     (db\<lparr>cards_tbl :=
                        sql_update
                          (\<lambda>c. c_list_id c = list_id \<and> c_position c > c_position currentCard
                                \<and> c_position c \<le> position)
                          (\<lambda>c. c\<lparr>c_position := c_position c - 1\<rparr>) (cards_tbl db)\<rparr>))
            else if position < c_position currentCard then
              (case err Shift_up of
                 Some e \<Rightarrow> rollback db 500 e
               | None \<Rightarrow>
                   updateCardPosition err db cardId list_id position
                     (db\<lparr>cards_tbl :=
                        sql_update
                          (\<lambda>c. c_list_id c = list_id \<and> c_position c \<ge> position
                                \<and> c_position c < c_position currentCard)
                          (\<lambda>c. c\<lparr>c_position := c_position c + 1\<rparr>) (cards_tbl db)\<rparr>))
            else
              (case err Commit of
                 Some e \<Rightarrow> rollback db 500 e
               | None \<Rightarrow> (Json_success, db))
          else
            (case err Close_gap of
               Some e \<Rightarrow> rollback db 500 e
             | None \<Rightarrow>
                 let db1 = db\<lparr>cards_tbl :=
                       sql_update
                         (\<lambda>c. c_list_id c = c_list_id currentCard
                               \<and> c_position c > c_position currentCard)
                         (\<lambda>c. c\<lparr>c_position := c_position c - 1\<rparr>) (cards_tbl db)\<rparr>
                 in (case err Open_slot of
                       Some e \<Rightarrow> rollback db 500 e
                     | None \<Rightarrow>
                         let db2 = db1\<lparr>cards_tbl :=
                               sql_update
                                 (\<lambda>c. c_list_id c = list_id \<and> c_position c \<ge> position)
                                 (\<lambda>c. c\<lparr>c_position := c_position c + 1\<rparr>) (cards_tbl db1)\<rparr>
                         in updateCardPosition err db cardId list_id position db2)))))"

section \<open>PUT /api/lists/:id/reorder\<close>

text \<open>
  \<open>xs.splice(start, 0, x)\<close> of JavaScript: a negative \<open>start\<close> counts from the end and
  stops at 0, a \<open>start\<close> beyond the length is the length.
\<close>

definition splice_insert :: "int \<Rightarrow> 'a \<Rightarrow> 'a list \<Rightarrow> 'a list" where
  "splice_insert start x xs =
     (let len = int (length xs);
          actualStart = (if start < 0 then max (len + start) 0 else min start len)
      in take (nat actualStart) xs @ [x] @ drop (nat actualStart) xs)"

text \<open>
  \<open>otherLists.map((list, index) => UPDATE lists SET position = index WHERE id = list.id)\<close>:
  the statements run in the order of the array; \<open>index\<close> starts at \<open>k\<close>.
\<close>

fun update_positions :: "nat \<Rightarrow> list_row list \<Rightarrow> list_row list \<Rightarrow> list_row list" where
  "update_positions k [] tbl = tbl"
| "update_positions k (list # rest) tbl =
     update_positions (Suc k) rest
       (sql_update (\<lambda>r. l_id r = l_id list) (\<lambda>r. r\<lparr>l_position := int k\<rparr>) tbl)"

text \<open>The rejections that \<open>Promise.all\<close> sees, in the order of the array.\<close>

definition update_errors :: "failures \<Rightarrow> nat \<Rightarrow> string list" where
  "update_errors err n = List.map_filter (\<lambda>k. err (Update_list k)) [0..<n]"

text \<open>
  The path parameter \<open>:id\<close> is taken as the integer it denotes, so that the store's
  comparison \<open>id = ?\<close> and \<open>parseInt(listId)\<close> agree on it. \<open>ORDER BY position\<close> is the
  stable sort of the rows by their position. \<open>resequenced\<close> is the array \<open>otherLists\<close>
  after the \<open>splice\<close>: the lists of the board without the moved one, and the moved one
  put back at \<open>position\<close>.
\<close>

definition resequenced :: "int \<Rightarrow> int \<Rightarrow> list_row \<Rightarrow> database \<Rightarrow> list_row list" where
  "resequenced listId position currentList db =
     (let allLists = sort_key l_position
            (sql_select (\<lambda>l. l_board_id l = l_board_id currentList) (lists_tbl db));
          otherLists = filter (\<lambda>list. l_id list \<noteq> listId) allLists
      in splice_insert position currentList otherLists)"

definition reorder_list ::
  "failures \<Rightarrow> int \<Rightarrow> int \<Rightarrow> database \<Rightarrow> response \<times> database" where
  "reorder_list err listId position db =
     (case err Begin_transaction of
        Some e \<Rightarrow> (Json_error 500 e, db)
      | None \<Rightarrow>
     (case err Select_list of
        Some e \<Rightarrow> rollback db 500 e
      | None \<Rightarrow>
     (case sql_select (\<lambda>l. l_id l = listId) (lists_tbl db) of
        [] \<Rightarrow> rollback db 404 ''List not found''
      | currentList # _ \<Rightarrow>
     (case err Select_board_lists of
        Some e \<Rightarrow> rollback db 500 e
      | None \<Rightarrow>
          let otherLists = resequenced listId position currentList db;
              db' = db\<lparr>lists_tbl := update_positions 0 otherLists (lists_tbl db)\<rparr>
          in (case update_errors err (length otherLists) of
                e # _ \<Rightarrow> rollback db 500 e
              | [] \<Rightarrow>
                  (case err Commit of
                     Some e \<Rightarrow> rollback db 500 e
                   | None \<Rightarrow> (Json_success, db')))))))"

section \<open>POST /api/lists and POST /api/cards\<close>

text \<open>\<open>SELECT COALESCE(MAX(position), -1) + 1 as nextPos\<close> over the rows of the group.\<close>

definition sql_max :: "int list \<Rightarrow> int option" where
  "sql_max ps = (case ps of [] \<Rightarrow> None | p # qs \<Rightarrow> Some (fold max qs p))"

definition nextPos :: "int list \<Rightarrow> int" where
  "nextPos ps = (case sql_max ps of None \<Rightarrow> - 1 | Some m \<Rightarrow> m) + 1"

definition create_list ::
  "failures \<Rightarrow> int \<Rightarrow> string \<Rightarrow> database \<Rightarrow> response \<times> database" where
  "create_list err board_id title db =
     (case err Next_position of
        Some e \<Rightarrow> (Json_error 500 e, db)
      | None \<Rightarrow>
          let position = nextPos (map l_position
                (sql_select (\<lambda>l. l_board_id l = board_id) (lists_tbl db)))
          in (case err Insert_list of
                Some e \<Rightarrow> (Json_error 500 e, db)
              | None \<Rightarrow>
                  if \<not> board_exists db board_id then (Json_error 500 fk_message, db)
                  else
                    let row = \<lparr>l_id = next_list_id db, l_board_id = board_id,
                               l_title = title, l_position = position\<rparr>
                    in (Json_list row,
                        db\<lparr>lists_tbl := lists_tbl db @ [row],
                           next_list_id := next_list_id db + 1\<rparr>)))"

subsection \<open>The due date of a card\<close>

text \<open>
  The \<open>due_date\<close> field of a request body: missing, \<open>null\<close>, or a string. Strings are
  lists of 8-bit characters; the white space of \<open>String.prototype.trim\<close> among them is
  tab, line feed, vertical tab, form feed, carriage return, space and no-break space.
\<close>

datatype due_date_input = Due_undefined | Due_null | Due_string string

definition is_whitespace :: "char \<Rightarrow> bool" where
  "is_whitespace c = (of_char c \<in> set [9, 10, 11, 12, 13, 32, 160 :: nat])"

definition trim :: "string \<Rightarrow> string" where
  "trim s = rev (dropWhile is_whitespace (rev (dropWhile is_whitespace s)))"

text \<open>\<open>s.split("T")[0]\<close>: the part of \<open>s\<close> before its first \<open>T\<close>.\<close>

definition split_T_first :: "string \<Rightarrow> string" where
  "split_T_first s = takeWhile (\<lambda>c. c \<noteq> CHR ''T'') s"

definition is_digit :: "char \<Rightarrow> bool" where
  "is_digit c = (c \<in> set ''0123456789'')"

text \<open>The regular expression \<open>/^\d{4}-\d{2}-\d{2}$/\<close>.\<close>

definition matches_date :: "string \<Rightarrow> bool" where
  "matches_date s =
     (length s = 10 \<and> list_all is_digit (take 4 s) \<and> s ! 4 = CHR ''-''
      \<and> list_all is_digit (take 2 (drop 5 s)) \<and> s ! 7 = CHR ''-''
      \<and> list_all is_digit (drop 8 s))"

text \<open>
  The block that both card handlers run on a string \<open>due_date\<close>: \<open>Inl\<close> is the message
  of the 400 response, \<open>Inr\<close> the value of \<open>formattedDate\<close>.
\<close>

definition formattedDate :: "string \<Rightarrow> string + string option" where
  "formattedDate due_date =
     (if due_date \<noteq> [] \<and> trim due_date \<noteq> [] then
        if \<not> matches_date (split_T_first due_date) then Inl ''Invalid date format''
        else Inr (Some (split_T_first due_date))
      else Inr None)"

text \<open>\<open>x || d\<close> on an optional string: \<open>d\<close> when \<open>x\<close> is missing or empty.\<close>

definition or_default :: "string option \<Rightarrow> string \<Rightarrow> string" where
  "or_default x d = (case x of None \<Rightarrow> d | Some s \<Rightarrow> if s = [] then d else s)"

text \<open>
  The column \<open>due_date\<close> is a \<open>DATE\<close>. The store takes a string \<open>YYYY-MM-DD\<close> that names a
  day of the calendar and keeps it as it is. A string that matches the pattern and names
  no day (month 00 or 13, day 00, 30 February) is no value of the column: in the strict
  SQL mode that the server has by default the statement fails with \<open>Incorrect date
  value\<close>. (A server set to a permissive mode stores the zero date instead; that mode is
  not modelled.) The message stands for the driver's \<open>err.message\<close>.
\<close>

definition number :: "string \<Rightarrow> nat" where
  "number s = foldl (\<lambda>n c. 10 * n + (of_char c - 48)) 0 s"

definition leap_year :: "nat \<Rightarrow> bool" where
  "leap_year y = (y mod 4 = 0 \<and> (y mod 100 \<noteq> 0 \<or> y mod 400 = 0))"

definition days_in_month :: "nat \<Rightarrow> nat \<Rightarrow> nat" where
  "days_in_month y m =
     (if m = 2 then (if leap_year y then 29 else 28)
      else if m \<in> set [4, 6, 9, 11] then 30 else 31)"

definition calendar_date :: "string \<Rightarrow> bool" where
  "calendar_date s =
     (matches_date s \<and>
      (let y = number (take 4 s); m = number (take 2 (drop 5 s)); d = number (drop 8 s)
       in 1 \<le> m \<and> m \<le> 12 \<and> 1 \<le> d \<and> d \<le> days_in_month y m))"


definition date_accepted :: "string option \<Rightarrow> bool" where
  "date_accepted date = (case date of None \<Rightarrow> True | Some s \<Rightarrow> calendar_date s)"

definition date_message :: string where
  "date_message = ''ER_TRUNCATED_WRONG_VALUE''"

record card_request =
  r_list_id :: int
  r_title :: string
  r_description :: "string option"
  r_due_date :: due_date_input
  r_priority :: "string option"

definition insert_card ::
  "failures \<Rightarrow> card_request \<Rightarrow> int \<Rightarrow> string option \<Rightarrow> database \<Rightarrow> response \<times> database" where
  "insert_card err req position date db =
     (case err Insert_card of
        Some e \<Rightarrow> (Json_error 500 e, db)
      | None \<Rightarrow>
          if \<not> date_accepted date then (Json_error 500 date_message, db)
          else if \<not> list_exists db (r_list_id req) then (Json_error 500 fk_message, db)
          else
            let row = \<lparr>c_id = next_card_id db, c_list_id = r_list_id req,
                       c_title = r_title req,
                       c_description = or_default (r_description req) [],
                       c_position = position,
                       c_priority = or_default (r_priority req) ''medium'',
                       c_due_date = date\<rparr>
            in (Json_card row,
                db\<lparr>cards_tbl := cards_tbl db @ [row],
                   next_card_id := next_card_id db + 1\<rparr>))"

definition create_card :: "failures \<Rightarrow> card_request \<Rightarrow> database \<Rightarrow> response \<times> database" where
  "create_card err req db =
     (case err Next_position of
        Some e \<Rightarrow> (Json_error 500 e, db)
      | None \<Rightarrow>
          let position = nextPos (map c_position
                (sql_select (\<lambda>c. c_list_id c = r_list_id req) (cards_tbl db)))
          in (case r_due_date req of
                Due_string s \<Rightarrow>
                  (case formattedDate s of
                     Inl msg \<Rightarrow> (Json_error 400 msg, db)
                   | Inr date \<Rightarrow> insert_card err req position date db)
              | _ \<Rightarrow> insert_card err req position None db))"

section \<open>PUT /api/cards/:id\<close>

text \<open>
  A field of \<open>updates\<close> is \<open>None\<close> when the body does not have it. A stored due date is
  read back by the driver as a \<open>Date\<close> object, which has no \<open>trim\<close>: when the body has no
  \<open>due_date\<close> and the card has one, the handler throws.
\<close>

record card_updates =
  u_title :: "string option"
  u_description :: "string option"
  u_priority :: "string option"
  u_due_date :: due_date_input

definition write_card ::
  "failures \<Rightarrow> int \<Rightarrow> card_row \<Rightarrow> card_updates \<Rightarrow> string option \<Rightarrow> database
    \<Rightarrow> response \<times> database" where
  "write_card err cardId currentCard updates date db =
     (case err Update_card_fields of
        Some e \<Rightarrow> (Json_error 500 e, db)
      | None \<Rightarrow>
          if \<not> date_accepted date then (Json_error 500 date_message, db)
          else
            (Json_updated date,
             db\<lparr>cards_tbl :=
               sql_update (\<lambda>c. c_id c = cardId)
               (\<lambda>c. c\<lparr>c_title := (case u_title updates of None \<Rightarrow> c_title currentCard
                                     | Some t \<Rightarrow> t),
                       c_description :=
                         or_default (case u_description updates of
                                       None \<Rightarrow> Some (c_description currentCard)
                                     | Some d \<Rightarrow> Some d) [],
                       c_priority :=
                         or_default (case u_priority updates of
                                       None \<Rightarrow> Some (c_priority currentCard)
                                     | Some p \<Rightarrow> Some p) ''medium'',
                       c_due_date := date\<rparr>)
               (cards_tbl db)\<rparr>))"

definition update_card ::
  "failures \<Rightarrow> int \<Rightarrow> card_updates \<Rightarrow> database \<Rightarrow> response \<times> database" where
  "update_card err cardId updates db =
     (case err Select_card of
        Some e \<Rightarrow> (Json_error 500 e, db)
      | None \<Rightarrow>
     (case sql_select (\<lambda>c. c_id c = cardId) (cards_tbl db) of
        [] \<Rightarrow> (Json_error 404 ''Card not found'', db)
      | currentCard # _ \<Rightarrow>
          (case u_due_date updates of
             Due_undefined \<Rightarrow>
               (case c_due_date currentCard of
                  None \<Rightarrow> write_card err cardId currentCard updates None db
                | Some _ \<Rightarrow> (Uncaught_TypeError, db))
           | Due_null \<Rightarrow> write_card err cardId currentCard updates None db
           | Due_string s \<Rightarrow>
               (case formattedDate s of
                  Inl msg \<Rightarrow> (Json_error 400 msg, db)
                | Inr date \<Rightarrow> write_card err cardId currentCard updates date db))))"

section \<open>DELETE /api/cards/:id and DELETE /api/lists/:id\<close>

definition delete_card :: "failures \<Rightarrow> int \<Rightarrow> database \<Rightarrow> response \<times> database" where
  "delete_card err cardId db =
     (case err Delete_card_row of
        Some e \<Rightarrow> (Json_error 500 e, db)
      | None \<Rightarrow>
          (Json_success, db\<lparr>cards_tbl := sql_delete (\<lambda>c. c_id c = cardId) (cards_tbl db)\<rparr>))"

text \<open>The cards of a deleted list go with it: \<open>ON DELETE CASCADE\<close>.\<close>

definition delete_list :: "failures \<Rightarrow> int \<Rightarrow> database \<Rightarrow> response \<times> database" where
  "delete_list err listId db =
     (case err Delete_list_row of
        Some e \<Rightarrow> (Json_error 500 e, db)
      | None \<Rightarrow>
          (Json_success,
           db\<lparr>lists_tbl := sql_delete (\<lambda>l. l_id l = listId) (lists_tbl db),
              cards_tbl := sql_delete (\<lambda>c. c_list_id c = listId) (cards_tbl db)\<rparr>))"

section \<open>Groups, positions and requests\<close>

definition cards_of :: "database \<Rightarrow> int \<Rightarrow> card_row list" where
  "cards_of db lid = filter (\<lambda>c. c_list_id c = lid) (cards_tbl db)"

definition lists_of :: "database \<Rightarrow> int \<Rightarrow> list_row list" where
  "lists_of db bid = filter (\<lambda>l. l_board_id l = bid) (lists_tbl db)"

definition card_positions :: "database \<Rightarrow> int \<Rightarrow> int list" where
  "card_positions db lid = map c_position (cards_of db lid)"

definition list_positions :: "database \<Rightarrow> int \<Rightarrow> int list" where
  "list_positions db bid = map l_position (lists_of db bid)"

text \<open>Dense positions: no duplicates, and each of the \<open>n\<close> positions is in \<open>0..n-1\<close>.\<close>

definition dense :: "int list \<Rightarrow> bool" where
  "dense ps = (distinct ps \<and> list_all (\<lambda>p. 0 \<le> p \<and> p < int (length ps)) ps)"

definition all_dense :: "database \<Rightarrow> bool" where
  "all_dense db =
     (list_all (\<lambda>b. dense (list_positions db (b_id b))) (boards_tbl db)
      \<and> list_all (\<lambda>l. dense (card_positions db (l_id l))) (lists_tbl db))"

text \<open>
  What the schema guarantees of every state: primary keys are unique and were handed out
  by the counters, and the foreign keys resolve.
\<close>

definition store_ok :: "database \<Rightarrow> bool" where
  "store_ok db =
     (distinct (map b_id (boards_tbl db))
      \<and> distinct (map l_id (lists_tbl db))
      \<and> distinct (map c_id (cards_tbl db))
      \<and> list_all (\<lambda>l. board_exists db (l_board_id l) \<and> l_id l < next_list_id db) (lists_tbl db)
      \<and> list_all (\<lambda>c. list_exists db (c_list_id c) \<and> c_id c < next_card_id db) (cards_tbl db))"

datatype request =
    POST_lists int string
  | POST_cards card_request
  | PUT_cards_move int int int
  | PUT_lists_reorder int int
  | DELETE_cards int
  | DELETE_lists int

fun handle :: "failures \<Rightarrow> request \<Rightarrow> database \<Rightarrow> response \<times> database" where
  "handle err (POST_lists board_id title) db = create_list err board_id title db"
| "handle err (POST_cards req) db = create_card err req db"
| "handle err (PUT_cards_move cardId list_id position) db =
     move_card err cardId list_id position db"
| "handle err (PUT_lists_reorder listId position) db = reorder_list err listId position db"
| "handle err (DELETE_cards cardId) db = delete_card err cardId db"
| "handle err (DELETE_lists listId) db = delete_list err listId db"

fun run :: "(failures \<times> request) list \<Rightarrow> database \<Rightarrow> database" where
  "run [] db = db"
| "run ((err, req) # rest) db = run rest (snd (handle err req db))"

text \<open>
  A move is in range when its target is an index of the group as it will be after the
  move: below the size of the list for a move within it, at most the size of the target
  list for a move into it.
\<close>

definition move_in_range :: "database \<Rightarrow> int \<Rightarrow> int \<Rightarrow> int \<Rightarrow> bool" where
  "move_in_range db cardId list_id position =
     (case sql_select (\<lambda>c. c_id c = cardId) (cards_tbl db) of
        [] \<Rightarrow> True
      | currentCard # _ \<Rightarrow>
          0 \<le> position \<and>
          (if c_list_id currentCard = list_id
           then position < int (length (cards_of db list_id))
           else position \<le> int (length (cards_of db list_id))))"

fun in_range :: "database \<Rightarrow> request \<Rightarrow> bool" where
  "in_range db (PUT_cards_move cardId list_id position) =
     move_in_range db cardId list_id position"
| "in_range db (DELETE_cards cardId) = False"
| "in_range db (DELETE_lists listId) = False"
| "in_range db _ = True"

fun all_in_range :: "(failures \<times> request) list \<Rightarrow> database \<Rightarrow> bool" where
  "all_in_range [] db = True"
| "all_in_range ((err, req) # rest) db =
     (in_range db req \<and> all_in_range rest (snd (handle err req db)))"

text \<open>The invariant of the store: the constraints of the schema and dense groups.\<close>

definition invariant :: "database \<Rightarrow> bool" where
  "invariant db = (store_ok db \<and> all_dense db)"

section \<open>The moves, row by row\<close>

text \<open>
  What a move within list \<open>l\<close> from position \<open>p\<close> to \<open>t\<close>, and a move from list \<open>a\<close>
  (position \<open>p\<close>) to list \<open>b\<close> (position \<open>t\<close>), do to one row of \<open>cards\<close>.
\<close>

definition within :: "int \<Rightarrow> int \<Rightarrow> int \<Rightarrow> int \<Rightarrow> card_row \<Rightarrow> card_row" where
  "within cardId l p t c =
     (if c_id c = cardId then c\<lparr>c_position := t\<rparr>
      else if c_list_id c = l \<and> p < c_position c \<and> c_position c \<le> t
           then c\<lparr>c_position := c_position c - 1\<rparr>
      else if c_list_id c = l \<and> t \<le> c_position c \<and> c_position c < p
           then c\<lparr>c_position := c_position c + 1\<rparr>
      else c)"

definition across :: "int \<Rightarrow> int \<Rightarrow> int \<Rightarrow> int \<Rightarrow> int \<Rightarrow> card_row \<Rightarrow> card_row" where
  "across cardId a p b t c =
     (if c_id c = cardId then c\<lparr>c_list_id := b, c_position := t\<rparr>
      else if c_list_id c = a \<and> p < c_position c then c\<lparr>c_position := c_position c - 1\<rparr>
      else if c_list_id c = b \<and> t \<le> c_position c then c\<lparr>c_position := c_position c + 1\<rparr>
      else c)"

text \<open>
  What the position updates of a list reorder do to one row of \<open>lists\<close>, for the array
  \<open>R\<close> and the first index \<open>k\<close>: the row gets the index of its id in \<open>R\<close>.
\<close>

definition renumber :: "list_row list \<Rightarrow> nat \<Rightarrow> list_row \<Rightarrow> list_row" where
  "renumber R k r =
     (case map_of (zip (map l_id R) [k..<k + length R]) (l_id r) of
        None \<Rightarrow> r
      | Some i \<Rightarrow> r\<lparr>l_position := int i\<rparr>)"

section \<open>The statements of a move\<close>

text \<open>
  The calls to the store that each of the two move handlers makes, in order, as long as
  none of them fails.
\<close>

definition move_steps :: "int \<Rightarrow> int \<Rightarrow> int \<Rightarrow> database \<Rightarrow> stmt list" where
  "move_steps cardId list_id position db =
     [Begin_transaction, Select_card] @
     (case sql_select (\<lambda>c. c_id c = cardId) (cards_tbl db) of
        [] \<Rightarrow> []
      | currentCard # _ \<Rightarrow>
          if c_list_id currentCard = list_id then
            if position > c_position currentCard then [Shift_down, Update_card, Commit]
            else if position < c_position currentCard then [Shift_up, Update_card, Commit]
            else [Commit]
          else [Close_gap, Open_slot, Update_card, Commit])"

definition reorder_steps :: "int \<Rightarrow> int \<Rightarrow> database \<Rightarrow> stmt list" where
  "reorder_steps listId position db =
     [Begin_transaction, Select_list] @
     (case sql_select (\<lambda>l. l_id l = listId) (lists_tbl db) of
        [] \<Rightarrow> []
      | currentList # _ \<Rightarrow>
          Select_board_lists #
          map Update_list [0..<length (resequenced listId position currentList db)] @ [Commit])"

section \<open>Appending several items\<close>

text \<open>
  A card request with a title only, and the creation of cards (lists) with the given
  titles one after the other in one list (on one board), no statement failing.
\<close>

definition plain_request :: "int \<Rightarrow> string \<Rightarrow> card_request" where
  "plain_request l title =
     \<lparr>r_list_id = l, r_title = title, r_description = None, r_due_date = Due_undefined,
      r_priority = None\<rparr>"



section \<open>Example states and requests\<close>

text \<open>A card with a title and nothing else, as \<open>POST /api/cards\<close> stores it.\<close>

definition new_card :: "int \<Rightarrow> int \<Rightarrow> string \<Rightarrow> int \<Rightarrow> card_row" where
  "new_card i l title p =
     \<lparr>c_id = i, c_list_id = l, c_title = title, c_description = [], c_position = p,
      c_priority = ''medium'', c_due_date = None\<rparr>"

text \<open>The state after \<open>createDefaultData\<close>: one board with its three lists.\<close>

definition seeded :: database where
  "seeded =
     \<lparr>boards_tbl = [\<lparr>b_id = 1, b_title = ''KanBan Board'',
                      b_description = ''Welcome to your Kanban board!''\<rparr>],
      lists_tbl = [\<lparr>l_id = 1, l_board_id = 1, l_title = ''To Do'', l_position = 0\<rparr>,
                   \<lparr>l_id = 2, l_board_id = 1, l_title = ''In Progress'', l_position = 1\<rparr>,
                   \<lparr>l_id = 3, l_board_id = 1, l_title = ''Done'', l_position = 2\<rparr>],
      cards_tbl = [], next_list_id = 4, next_card_id = 1\<rparr>"

text \<open>
  The two scenarios of the specification: cards A, B, C in list 1; cards X, Y in list 1
  and Z in list 2.
\<close>

definition scenario_abc :: database where
  "scenario_abc =
     seeded\<lparr>cards_tbl := [new_card 1 1 ''A'' 0, new_card 2 1 ''B'' 1, new_card 3 1 ''C'' 2],
            next_card_id := 4\<rparr>"

definition scenario_xyz :: database where
  "scenario_xyz =
     seeded\<lparr>cards_tbl := [new_card 1 1 ''X'' 0, new_card 2 1 ''Y'' 1, new_card 3 2 ''Z'' 0],
            next_card_id := 4\<rparr>"

text \<open>A failure pattern for examples: statement \<open>s\<close> fails, every other one succeeds.\<close>

definition fails_at :: "stmt \<Rightarrow> failures" where
  "fails_at s = (\<lambda>s'. if s' = s then Some ''ER_LOCK_DEADLOCK'' else None)"

text \<open>A card request and a card update that carry a due date and nothing else optional.\<close>

definition dated_request :: "string \<Rightarrow> card_request" where
  "dated_request s =
     \<lparr>r_list_id = 1, r_title = ''D'', r_description = None, r_due_date = Due_string s,
      r_priority = None\<rparr>"

definition dated_update :: "string \<Rightarrow> card_updates" where
  "dated_update s =
     \<lparr>u_title = None, u_description = None, u_priority = None, u_due_date = Due_string s\<rparr>"

text \<open>
  A sequence of requests for examples: two cards created in list 1, the first moved to
  list 2, a move of the second whose commit fails, and the last list moved to the front.
\<close>

definition session :: "(failures \<times> request) list" where
  "session =
     [(no_failures, POST_cards (plain_request 1 ''A'')),
      (no_failures, POST_cards (plain_request 1 ''B'')),
      (no_failures, PUT_cards_move 1 2 0),
      (fails_at Commit, PUT_cards_move 2 3 0),
      (no_failures, PUT_lists_reorder 3 0)]"

section \<open>One connection for all requests\<close>

text \<open>
  \<open>const db = mysql.createConnection(...)\<close>: the server opens one connection and every
  handler sends its statements on it. The store keeps what is committed (\<open>durable\<close>) and
  what the connection sees (\<open>visible\<close>), and knows whether the connection has a
  transaction open. Outside a transaction a statement is committed at once.
\<close>

record connection =
  durable :: database
  visible :: database
  in_transaction :: bool

definition idle :: "database \<Rightarrow> connection" where
  "idle db = \<lparr>durable = db, visible = db, in_transaction = False\<rparr>"

text \<open>The statements that the card move sends, with their parameters.\<close>

datatype query =
    Start_transaction
  | Commit_work
  | Rollback_work
  | Select_card_by_id int
  | Shift_down_between int int int
  | Shift_up_between int int int
  | Close_gap_above int int
  | Open_slot_from int int
  | Set_card int int int

definition update_cards :: "(card_row \<Rightarrow> bool) \<Rightarrow> (card_row \<Rightarrow> card_row) \<Rightarrow> connection \<Rightarrow> connection" where
  "update_cards cond upd conn =
     (let db' = (visible conn)\<lparr>cards_tbl := sql_update cond upd (cards_tbl (visible conn))\<rparr>
      in conn\<lparr>visible := db',
              durable := (if in_transaction conn then durable conn else db')\<rparr>)"

text \<open>
  One statement on the connection: the driver's error or the rows, and the connection
  after it. \<open>START TRANSACTION\<close> commits the transaction that is open, whoever opened it,
  and opens a new one; \<open>COMMIT\<close> makes what is visible durable; \<open>ROLLBACK\<close> returns to
  what is durable. The update of \<open>list_id\<close> fails by the foreign key when it would give
  a row a list that does not exist; a failed statement changes nothing and leaves the
  transaction open.
\<close>

fun execute :: "query \<Rightarrow> connection \<Rightarrow> (string + card_row list) \<times> connection" where
  "execute Start_transaction conn =
     (Inr [], \<lparr>durable = visible conn, visible = visible conn, in_transaction = True\<rparr>)"
| "execute Commit_work conn =
     (Inr [], \<lparr>durable = visible conn, visible = visible conn, in_transaction = False\<rparr>)"
| "execute Rollback_work conn =
     (Inr [], \<lparr>durable = durable conn, visible = durable conn, in_transaction = False\<rparr>)"
| "execute (Select_card_by_id cardId) conn =
     (Inr (sql_select (\<lambda>c. c_id c = cardId) (cards_tbl (visible conn))), conn)"
| "execute (Shift_down_between list_id low high) conn =
     (Inr [], update_cards
        (\<lambda>c. c_list_id c = list_id \<and> c_position c > low \<and> c_position c \<le> high)
        (\<lambda>c. c\<lparr>c_position := c_position c - 1\<rparr>) conn)"
| "execute (Shift_up_between list_id low high) conn =
     (Inr [], update_cards
        (\<lambda>c. c_list_id c = list_id \<and> c_position c \<ge> low \<and> c_position c < high)
        (\<lambda>c. c\<lparr>c_position := c_position c + 1\<rparr>) conn)"
| "execute (Close_gap_above list_id low) conn =
     (Inr [], update_cards
        (\<lambda>c. c_list_id c = list_id \<and> c_position c > low)
        (\<lambda>c. c\<lparr>c_position := c_position c - 1\<rparr>) conn)"
| "execute (Open_slot_from list_id low) conn =
     (Inr [], update_cards
        (\<lambda>c. c_list_id c = list_id \<and> c_position c \<ge> low)
        (\<lambda>c. c\<lparr>c_position := c_position c + 1\<rparr>) conn)"
| "execute (Set_card list_id position cardId) conn =
     (if sql_select (\<lambda>c. c_id c = cardId) (cards_tbl (visible conn)) \<noteq> []
         \<and> \<not> list_exists (visible conn) list_id
      then (Inl fk_message, conn)
      else (Inr [], update_cards (\<lambda>c. c_id c = cardId)
              (\<lambda>c. c\<lparr>c_list_id := list_id, c_position := position\<rparr>) conn))"

text \<open>
  The statements that the handler of \<open>PUT /api/cards/:id/move\<close> sends once it has read
  the card, each from the callback of the one before, the last one \<open>db.commit\<close>.
\<close>

definition move_queries :: "card_row \<Rightarrow> int \<Rightarrow> int \<Rightarrow> int \<Rightarrow> query list" where
  "move_queries currentCard cardId list_id position =
     (if c_list_id currentCard = list_id then
        if position > c_position currentCard then
          [Shift_down_between list_id (c_position currentCard) position,
           Set_card list_id position cardId, Commit_work]
        else if position < c_position currentCard then
          [Shift_up_between list_id position (c_position currentCard),
           Set_card list_id position cardId, Commit_work]
        else [Commit_work]
      else
        [Close_gap_above (c_list_id currentCard) (c_position currentCard),
         Open_slot_from list_id position,
         Set_card list_id position cardId, Commit_work])"

text \<open>
  Where a request of the card move stands: before \<open>db.beginTransaction\<close>, before the
  \<open>SELECT\<close>, with statements still to send, before \<open>db.rollback\<close> with the answer it
  will give, or answered.
\<close>

datatype move_handler =
    Begin_move
  | Query_card
  | Sending "query list"
  | Rolling_back nat string
  | Answered response

text \<open>
  One callback of the handler for the request \<open>(cardId, list_id, position)\<close>: it sends
  one statement and, from the result, goes on as the source does.
\<close>

fun callback :: "int \<times> int \<times> int \<Rightarrow> move_handler \<Rightarrow> connection \<Rightarrow> move_handler \<times> connection" where
  "callback (cardId, list_id, position) Begin_move conn =
     (case execute Start_transaction conn of
        (Inl e, conn') \<Rightarrow> (Answered (Json_error 500 e), conn')
      | (Inr _, conn') \<Rightarrow> (Query_card, conn'))"
| "callback (cardId, list_id, position) Query_card conn =
     (case execute (Select_card_by_id cardId) conn of
        (Inl e, conn') \<Rightarrow> (Rolling_back 500 e, conn')
      | (Inr [], conn') \<Rightarrow> (Rolling_back 404 ''Card not found'', conn')
      | (Inr (currentCard # _), conn') \<Rightarrow>
          (Sending (move_queries currentCard cardId list_id position), conn'))"
| "callback (cardId, list_id, position) (Sending []) conn = (Answered Json_success, conn)"
| "callback (cardId, list_id, position) (Sending (q # qs)) conn =
     (case execute q conn of
        (Inl e, conn') \<Rightarrow> (Rolling_back 500 e, conn')
      | (Inr _, conn') \<Rightarrow> (if qs = [] then Answered Json_success else Sending qs, conn'))"
| "callback (cardId, list_id, position) (Rolling_back status msg) conn =
     (Answered (Json_error status msg), snd (execute Rollback_work conn))"
| "callback (cardId, list_id, position) (Answered r) conn = (Answered r, conn)"

text \<open>
  The handlers are asynchronous: between two statements of a request the connection
  takes the statements of the other requests, in the order in which they are sent.
  \<open>serve\<close> runs the callbacks of several requests in a given order; \<open>i\<close> in the schedule
  is the next callback of request \<open>i\<close>.
\<close>

fun serve ::
  "nat list \<Rightarrow> ((int \<times> int \<times> int) \<times> move_handler) list \<Rightarrow> connection \<Rightarrow>
   ((int \<times> int \<times> int) \<times> move_handler) list \<times> connection" where
  "serve [] hs conn = (hs, conn)"
| "serve (i # schedule) hs conn =
     (if i < length hs then
        (case callback (fst (hs ! i)) (snd (hs ! i)) conn of
           (h, conn') \<Rightarrow> serve schedule (hs[i := (fst (hs ! i), h)]) conn')
      else serve schedule hs conn)"

section \<open>Rows with unique keys\<close>

lemma select_by_key:
  "distinct (map f xs) \<Longrightarrow> x \<in> set xs \<Longrightarrow> sql_select (\<lambda>y. f y = f x) xs = [x]"
  unfolding sql_select_def
proof (induction xs)
  case Nil
  then show ?case by simp
next
  case (Cons a xs)
  show ?case
  proof (cases "a = x")
    case True
    with Cons.prems have "\<forall>y\<in>set xs. f y \<noteq> f x" by (metis distinct.simps(2) imageI list.simps(9) set_map)
    then have "filter (\<lambda>y. f y = f x) xs = []" by (simp add: filter_empty_conv)
    with True show ?thesis by simp
  next
    case False
    with Cons.prems have "x \<in> set xs" "f a \<noteq> f x" by auto
    with Cons show ?thesis by simp
  qed
qed

lemma key_unique:
  "distinct (map f xs) \<Longrightarrow> x \<in> set xs \<Longrightarrow> y \<in> set xs \<Longrightarrow> f y = f x \<Longrightarrow> y = x"
  by (meson distinct_map inj_onD)

lemma length_filter_split:
  "length (filter P xs) =
     length (filter (\<lambda>y. P y \<and> Q y) xs) + length (filter (\<lambda>y. P y \<and> \<not> Q y) xs)"
  by (induction xs) auto

lemma dense_rows:
  "distinct ys \<Longrightarrow>
     dense (map h ys) = (inj_on h (set ys) \<and> (\<forall>y\<in>set ys. 0 \<le> h y \<and> h y < int (length ys)))"
  by (auto simp: dense_def distinct_map list_all_iff)

lemma card_positions_map:
  "card_positions (db\<lparr>cards_tbl := map g cs\<rparr>) l =
     map (\<lambda>c. c_position (g c)) (filter (\<lambda>c. c_list_id (g c) = l) cs)"
  by (simp add: card_positions_def cards_of_def filter_map comp_def)

lemma cards_of_map:
  "cards_of (db\<lparr>cards_tbl := map g cs\<rparr>) l = map g (filter (\<lambda>c. c_list_id (g c) = l) cs)"
  by (simp add: cards_of_def filter_map comp_def)

lemma card_positions_rows:
  "card_positions db l = map c_position (filter (\<lambda>c. c_list_id c = l) (cards_tbl db))"
  by (simp add: card_positions_def cards_of_def)

section \<open>The effect of a card move on the table\<close>

lemma move_card_within:
  assumes ids: "distinct (map c_id (cards_tbl db))"
    and x: "x \<in> set (cards_tbl db)" "c_id x = cardId" "c_list_id x = l" "c_position x = p"
    and l: "list_exists db l"
  shows "move_card no_failures cardId l t db =
           (Json_success, db\<lparr>cards_tbl := map (within cardId l p t) (cards_tbl db)\<rparr>)"
proof -
  have sel: "sql_select (\<lambda>c. c_id c = cardId) (cards_tbl db) = [x]"
    using select_by_key [OF ids x(1)] x(2) by simp
  have uniq: "\<And>c. c \<in> set (cards_tbl db) \<Longrightarrow> c_id c = cardId \<Longrightarrow> c = x"
    using key_unique [OF ids x(1)] x(2) by simp
  have down: "sql_update (\<lambda>c. c_id c = cardId) (\<lambda>c. c\<lparr>c_list_id := l, c_position := t\<rparr>)
      (sql_update (\<lambda>c. c_list_id c = l \<and> p < c_position c \<and> c_position c \<le> t)
         (\<lambda>c. c\<lparr>c_position := c_position c - 1\<rparr>) (cards_tbl db)) =
     map (within cardId l p t) (cards_tbl db)" if "p < t"
    unfolding sql_update_def map_map
    by (rule map_cong) (use x(3,4) uniq that in \<open>auto simp: within_def\<close>)
  have up: "sql_update (\<lambda>c. c_id c = cardId) (\<lambda>c. c\<lparr>c_list_id := l, c_position := t\<rparr>)
      (sql_update (\<lambda>c. c_list_id c = l \<and> t \<le> c_position c \<and> c_position c < p)
         (\<lambda>c. c\<lparr>c_position := c_position c + 1\<rparr>) (cards_tbl db)) =
     map (within cardId l p t) (cards_tbl db)" if "t < p"
    unfolding sql_update_def map_map
    by (rule map_cong) (use x(3,4) uniq that in \<open>auto simp: within_def\<close>)
  have same: "map (within cardId l p p) (cards_tbl db) = cards_tbl db"
    by (rule map_idI) (use x(3,4) uniq in \<open>auto simp: within_def\<close>)
  show ?thesis
    using l x(3,4) same
    by (auto simp: move_card_def updateCardPosition_def sel no_failures_def down up
          list_exists_def)
qed

lemma move_card_across:
  assumes ids: "distinct (map c_id (cards_tbl db))"
    and x: "x \<in> set (cards_tbl db)" "c_id x = cardId" "c_list_id x = a" "c_position x = p"
    and b: "b \<noteq> a" "list_exists db b"
  shows "move_card no_failures cardId b t db =
           (Json_success, db\<lparr>cards_tbl := map (across cardId a p b t) (cards_tbl db)\<rparr>)"
proof -
  have sel: "sql_select (\<lambda>c. c_id c = cardId) (cards_tbl db) = [x]"
    using select_by_key [OF ids x(1)] x(2) by simp
  have uniq: "\<And>c. c \<in> set (cards_tbl db) \<Longrightarrow> c_id c = cardId \<Longrightarrow> c = x"
    using key_unique [OF ids x(1)] x(2) by simp
  have tbl: "sql_update (\<lambda>c. c_id c = cardId) (\<lambda>c. c\<lparr>c_list_id := b, c_position := t\<rparr>)
      (sql_update (\<lambda>c. c_list_id c = b \<and> t \<le> c_position c)
         (\<lambda>c. c\<lparr>c_position := c_position c + 1\<rparr>)
         (sql_update (\<lambda>c. c_list_id c = a \<and> p < c_position c)
            (\<lambda>c. c\<lparr>c_position := c_position c - 1\<rparr>) (cards_tbl db))) =
     map (across cardId a p b t) (cards_tbl db)"
    unfolding sql_update_def map_map
    by (rule map_cong) (use x(3,4) b(1) uniq in \<open>auto simp: across_def\<close>)
  show ?thesis
    using b x(3,4)
    by (simp add: move_card_def updateCardPosition_def sel no_failures_def tbl list_exists_def
          Let_def)
qed

section \<open>Density under the moves\<close>

lemma across_source_dense:
  assumes ids: "distinct (map c_id cs)"
    and x: "x \<in> set cs" "c_id x = cardId" "c_list_id x = a" "c_position x = p"
    and b: "b \<noteq> a"
    and d: "dense (map c_position (filter (\<lambda>c. c_list_id c = a) cs))"
  shows "length (filter (\<lambda>c. c_list_id (across cardId a p b t c) = a) cs) =
           length (filter (\<lambda>c. c_list_id c = a) cs) - 1"
    and "dense (map (\<lambda>c. c_position (across cardId a p b t c))
           (filter (\<lambda>c. c_list_id (across cardId a p b t c) = a) cs))"
proof -
  let ?A = "filter (\<lambda>c. c_list_id c = a) cs"
  let ?A' = "filter (\<lambda>c. c_list_id c = a \<and> c_id c \<noteq> cardId) cs"
  have dcs: "distinct cs" using ids by (simp add: distinct_map)
  have uniq: "\<And>c. c \<in> set cs \<Longrightarrow> c_id c = cardId \<Longrightarrow> c = x"
    using key_unique [OF ids x(1)] x(2) by simp
  have f: "filter (\<lambda>c. c_list_id (across cardId a p b t c) = a) cs = ?A'"
    by (rule filter_cong) (use b in \<open>auto simp: across_def\<close>)
  have "filter (\<lambda>c. c_list_id c = a \<and> c_id c = cardId) cs =
      filter (\<lambda>c. c_list_id c = a) (filter (\<lambda>c. c_id c = cardId) cs)"
    by (simp add: conj_commute)
  also have "\<dots> = [x]"
    using select_by_key [OF ids x(1)] x(2,3) by (simp add: sql_select_def)
  finally have "filter (\<lambda>c. c_list_id c = a \<and> c_id c = cardId) cs = [x]" .
  then have len: "length ?A = Suc (length ?A')"
    using length_filter_split [of "\<lambda>c. c_list_id c = a" cs "\<lambda>c. c_id c = cardId"] by simp
  show "length (filter (\<lambda>c. c_list_id (across cardId a p b t c) = a) cs) = length ?A - 1"
    using f len by simp
  from d have inj: "inj_on c_position (set ?A)"
    and rng: "\<forall>c\<in>set ?A. 0 \<le> c_position c \<and> c_position c < int (length ?A)"
    using dense_rows [of ?A c_position] dcs by auto
  have xa: "x \<in> set ?A" using x by simp
  have ne: "c_position c \<noteq> p" if "c \<in> set ?A'" for c
  proof
    assume "c_position c = p"
    with that xa inj x(4) have "c = x" by (auto dest: inj_onD)
    with that x(2) show False by simp
  qed
  have "dense (map (\<lambda>c. c_position (across cardId a p b t c)) ?A')"
  proof (subst dense_rows)
    show "distinct ?A'" using dcs by simp
    have "inj_on (\<lambda>c. c_position (across cardId a p b t c)) (set ?A')"
    proof (rule inj_onI)
      fix c1 c2
      assume c: "c1 \<in> set ?A'" "c2 \<in> set ?A'"
        and e: "c_position (across cardId a p b t c1) = c_position (across cardId a p b t c2)"
      have "c_position c1 = c_position c2"
        using c e ne [OF c(1)] ne [OF c(2)] b by (auto simp: across_def split: if_splits)
      with c inj show "c1 = c2" by (auto dest: inj_onD)
    qed
    moreover have "\<forall>c\<in>set ?A'. 0 \<le> c_position (across cardId a p b t c)
        \<and> c_position (across cardId a p b t c) < int (length ?A')"
    proof
      fix c assume c: "c \<in> set ?A'"
      then have "c \<in> set ?A" by simp
      with rng have r: "0 \<le> c_position c" "c_position c < int (length ?A)" by auto
      have px: "0 \<le> p" "p < int (length ?A)" using rng xa x(4) by auto
      show "0 \<le> c_position (across cardId a p b t c)
        \<and> c_position (across cardId a p b t c) < int (length ?A')"
        using c r px ne [OF c] len b by (auto simp: across_def)
    qed
    ultimately show "inj_on (\<lambda>c. c_position (across cardId a p b t c)) (set ?A') \<and>
      (\<forall>c\<in>set ?A'. 0 \<le> c_position (across cardId a p b t c)
        \<and> c_position (across cardId a p b t c) < int (length ?A'))" by simp
  qed
  then show "dense (map (\<lambda>c. c_position (across cardId a p b t c))
           (filter (\<lambda>c. c_list_id (across cardId a p b t c) = a) cs))"
    using f by simp
qed


lemma across_target_dense:
  assumes ids: "distinct (map c_id cs)"
    and x: "x \<in> set cs" "c_id x = cardId" "c_list_id x = a" "c_position x = p"
    and b: "b \<noteq> a"
    and d: "dense (map c_position (filter (\<lambda>c. c_list_id c = b) cs))"
    and t: "0 \<le> t" "t \<le> int (length (filter (\<lambda>c. c_list_id c = b) cs))"
  shows "length (filter (\<lambda>c. c_list_id (across cardId a p b t c) = b) cs) =
           length (filter (\<lambda>c. c_list_id c = b) cs) + 1"
    and "dense (map (\<lambda>c. c_position (across cardId a p b t c))
           (filter (\<lambda>c. c_list_id (across cardId a p b t c) = b) cs))"
proof -
  let ?B = "filter (\<lambda>c. c_list_id c = b) cs"
  let ?B' = "filter (\<lambda>c. c_id c = cardId \<or> c_list_id c = b) cs"
  have dcs: "distinct cs" using ids by (simp add: distinct_map)
  have uniq: "\<And>c. c \<in> set cs \<Longrightarrow> c_id c = cardId \<Longrightarrow> c = x"
    using key_unique [OF ids x(1)] x(2) by simp
  have f: "filter (\<lambda>c. c_list_id (across cardId a p b t c) = b) cs = ?B'"
    by (rule filter_cong) (use b in \<open>auto simp: across_def\<close>)
  have 1: "filter (\<lambda>c. (c_id c = cardId \<or> c_list_id c = b) \<and> c_id c = cardId) cs = [x]"
  proof -
    have "filter (\<lambda>c. (c_id c = cardId \<or> c_list_id c = b) \<and> c_id c = cardId) cs =
        filter (\<lambda>c. c_id c = cardId) cs"
      by (rule filter_cong) auto
    then show ?thesis using select_by_key [OF ids x(1)] x(2) by (simp add: sql_select_def)
  qed
  have 2: "filter (\<lambda>c. (c_id c = cardId \<or> c_list_id c = b) \<and> c_id c \<noteq> cardId) cs = ?B"
    by (rule filter_cong) (use uniq x(3) b in auto)
  have len: "length ?B' = Suc (length ?B)"
    using length_filter_split [of "\<lambda>c. c_id c = cardId \<or> c_list_id c = b" cs
        "\<lambda>c. c_id c = cardId"] 1 2 by simp
  show "length (filter (\<lambda>c. c_list_id (across cardId a p b t c) = b) cs) = length ?B + 1"
    using f len by simp
  from d have inj: "inj_on c_position (set ?B)"
    and rng: "\<forall>c\<in>set ?B. 0 \<le> c_position c \<and> c_position c < int (length ?B)"
    using dense_rows [of ?B c_position] dcs by auto
  have mem: "c = x \<or> (c \<in> set ?B \<and> c_id c \<noteq> cardId)" if "c \<in> set ?B'" for c
    using that uniq x(3) b by auto
  have "dense (map (\<lambda>c. c_position (across cardId a p b t c)) ?B')"
  proof (subst dense_rows)
    show "distinct ?B'" using dcs by simp
    have "inj_on (\<lambda>c. c_position (across cardId a p b t c)) (set ?B')"
    proof (rule inj_onI)
      fix c1 c2
      assume c: "c1 \<in> set ?B'" "c2 \<in> set ?B'"
        and e: "c_position (across cardId a p b t c1) = c_position (across cardId a p b t c2)"
      show "c1 = c2"
      proof (cases "c1 = x \<or> c2 = x")
        case True
        then show ?thesis
          using mem [OF c(1)] mem [OF c(2)] e x(2) b by (auto simp: across_def split: if_splits)
      next
        case False
        then have "c1 \<in> set ?B" "c2 \<in> set ?B" "c_id c1 \<noteq> cardId" "c_id c2 \<noteq> cardId"
          using mem [OF c(1)] mem [OF c(2)] by auto
        moreover from this have "c_position c1 = c_position c2"
          using e b by (auto simp: across_def split: if_splits)
        ultimately show ?thesis using inj by (auto dest: inj_onD)
      qed
    qed
    moreover have "\<forall>c\<in>set ?B'. 0 \<le> c_position (across cardId a p b t c)
        \<and> c_position (across cardId a p b t c) < int (length ?B')"
    proof
      fix c assume c: "c \<in> set ?B'"
      show "0 \<le> c_position (across cardId a p b t c)
        \<and> c_position (across cardId a p b t c) < int (length ?B')"
        using mem [OF c] rng t len x(2) b by (auto simp: across_def)
    qed
    ultimately show "inj_on (\<lambda>c. c_position (across cardId a p b t c)) (set ?B') \<and>
      (\<forall>c\<in>set ?B'. 0 \<le> c_position (across cardId a p b t c)
        \<and> c_position (across cardId a p b t c) < int (length ?B'))" by simp
  qed
  then show "dense (map (\<lambda>c. c_position (across cardId a p b t c))
           (filter (\<lambda>c. c_list_id (across cardId a p b t c) = b) cs))"
    using f by simp
qed

lemma across_other:
  assumes ids: "distinct (map c_id cs)"
    and x: "x \<in> set cs" "c_id x = cardId" "c_list_id x = a"
    and l: "l \<noteq> a" "l \<noteq> b"
  shows "map (across cardId a p b t) (filter (\<lambda>c. c_list_id (across cardId a p b t c) = l) cs)
           = filter (\<lambda>c. c_list_id c = l) cs"
proof -
  have uniq: "\<And>c. c \<in> set cs \<Longrightarrow> c_id c = cardId \<Longrightarrow> c = x"
    using key_unique [OF ids x(1)] x(2) by simp
  have "filter (\<lambda>c. c_list_id (across cardId a p b t c) = l) cs =
      filter (\<lambda>c. c_list_id c = l) cs"
    by (rule filter_cong) (use l uniq x(3) in \<open>auto simp: across_def\<close>)
  moreover have "map (across cardId a p b t) (filter (\<lambda>c. c_list_id c = l) cs) =
      filter (\<lambda>c. c_list_id c = l) cs"
    by (rule map_idI) (use l uniq x(3) in \<open>auto simp: across_def\<close>)
  ultimately show ?thesis by simp
qed

lemma within_dense:
  assumes ids: "distinct (map c_id cs)"
    and x: "x \<in> set cs" "c_id x = cardId" "c_list_id x = l" "c_position x = p"
    and d: "dense (map c_position (filter (\<lambda>c. c_list_id c = l) cs))"
    and t: "0 \<le> t" "t < int (length (filter (\<lambda>c. c_list_id c = l) cs))"
  shows "dense (map (\<lambda>c. c_position (within cardId l p t c))
           (filter (\<lambda>c. c_list_id c = l) cs))"
proof -
  let ?L = "filter (\<lambda>c. c_list_id c = l) cs"
  have dcs: "distinct cs" using ids by (simp add: distinct_map)
  have uniq: "\<And>c. c \<in> set cs \<Longrightarrow> c_id c = cardId \<Longrightarrow> c = x"
    using key_unique [OF ids x(1)] x(2) by simp
  from d have inj: "inj_on c_position (set ?L)"
    and rng: "\<forall>c\<in>set ?L. 0 \<le> c_position c \<and> c_position c < int (length ?L)"
    using dense_rows [of ?L c_position] dcs by auto
  have xl: "x \<in> set ?L" using x by simp
  have ne: "c_position c \<noteq> p" if "c \<in> set ?L" "c_id c \<noteq> cardId" for c
  proof
    assume "c_position c = p"
    with that xl inj x(4) have "c = x" by (auto dest: inj_onD)
    with that x(2) show False by simp
  qed
  show ?thesis
  proof (subst dense_rows)
    show "distinct ?L" using dcs by simp
    have "inj_on (\<lambda>c. c_position (within cardId l p t c)) (set ?L)"
    proof (rule inj_onI)
      fix c1 c2
      assume c: "c1 \<in> set ?L" "c2 \<in> set ?L"
        and e: "c_position (within cardId l p t c1) = c_position (within cardId l p t c2)"
      show "c1 = c2"
      proof (cases "c_id c1 = cardId \<or> c_id c2 = cardId")
        case True
        then show ?thesis
          using c e uniq ne [OF c(1)] ne [OF c(2)]
          by (auto simp: within_def split: if_splits)
      next
        case False
        then have "c_position c1 = c_position c2"
          using c e ne [OF c(1)] ne [OF c(2)] by (auto simp: within_def split: if_splits)
        with c inj show ?thesis by (auto dest: inj_onD)
      qed
    qed
    moreover have "\<forall>c\<in>set ?L. 0 \<le> c_position (within cardId l p t c)
        \<and> c_position (within cardId l p t c) < int (length ?L)"
    proof
      fix c assume c: "c \<in> set ?L"
      have px: "0 \<le> p" "p < int (length ?L)" using rng xl x(4) by auto
      from c rng have "0 \<le> c_position c" "c_position c < int (length ?L)" by auto
      with px t show "0 \<le> c_position (within cardId l p t c)
        \<and> c_position (within cardId l p t c) < int (length ?L)"
        by (simp add: within_def)
    qed
    ultimately show "inj_on (\<lambda>c. c_position (within cardId l p t c)) (set ?L) \<and>
      (\<forall>c\<in>set ?L. 0 \<le> c_position (within cardId l p t c)
        \<and> c_position (within cardId l p t c) < int (length ?L))" by simp
  qed
qed

section \<open>Moving a card within its list\<close>

text \<open>
  Claim C2. A card \<open>x\<close> of list \<open>l\<close> at position \<open>p\<close> is moved to position \<open>t\<close> of the
  same list, and no statement fails. If \<open>t > p\<close>, every other card of \<open>l\<close> with a position
  in \<open>(p, t]\<close> goes down by one and the moved card is set to \<open>t\<close>; if \<open>t < p\<close>, every other
  card of \<open>l\<close> with a position in \<open>[t, p)\<close> goes up by one and the moved card is set to
  \<open>t\<close>; if \<open>t = p\<close>, the state is unchanged. All other rows are as they were, and the
  response is \<open>{success: true}\<close> in the three cases. The hypotheses are the primary key of
  \<open>cards\<close> and the foreign key of the card's list.
\<close>

theorem move_within_list:
  assumes "distinct (map c_id (cards_tbl db))"
    and "x \<in> set (cards_tbl db)" and "c_id x = cardId"
    and "c_list_id x = l" and "c_position x = p"
    and "list_exists db l"
  shows "(p < t \<longrightarrow>
            move_card no_failures cardId l t db =
              (Json_success,
               db\<lparr>cards_tbl := map (\<lambda>c.
                 if c_id c = cardId then c\<lparr>c_position := t\<rparr>
                 else if c_list_id c = l \<and> p < c_position c \<and> c_position c \<le> t
                      then c\<lparr>c_position := c_position c - 1\<rparr>
                 else c) (cards_tbl db)\<rparr>))
       \<and> (t < p \<longrightarrow>
            move_card no_failures cardId l t db =
              (Json_success,
               db\<lparr>cards_tbl := map (\<lambda>c.
                 if c_id c = cardId then c\<lparr>c_position := t\<rparr>
                 else if c_list_id c = l \<and> t \<le> c_position c \<and> c_position c < p
                      then c\<lparr>c_position := c_position c + 1\<rparr>
                 else c) (cards_tbl db)\<rparr>))
       \<and> (t = p \<longrightarrow> move_card no_failures cardId l t db = (Json_success, db))"
proof -
  note m = move_card_within [OF assms, of t]
  have down: "map (within cardId l p t) (cards_tbl db) =
      map (\<lambda>c. if c_id c = cardId then c\<lparr>c_position := t\<rparr>
                 else if c_list_id c = l \<and> p < c_position c \<and> c_position c \<le> t
                      then c\<lparr>c_position := c_position c - 1\<rparr>
                 else c) (cards_tbl db)" if "p < t"
    by (rule map_cong) (use that in \<open>auto simp: within_def\<close>)
  have up: "map (within cardId l p t) (cards_tbl db) =
      map (\<lambda>c. if c_id c = cardId then c\<lparr>c_position := t\<rparr>
                 else if c_list_id c = l \<and> t \<le> c_position c \<and> c_position c < p
                      then c\<lparr>c_position := c_position c + 1\<rparr>
                 else c) (cards_tbl db)" if "t < p"
    by (rule map_cong) (use that in \<open>auto simp: within_def\<close>)
  have same: "map (within cardId l p p) (cards_tbl db) = cards_tbl db"
  proof (rule map_idI)
    fix c assume c: "c \<in> set (cards_tbl db)"
    show "within cardId l p p c = c"
    proof (cases "c_id c = cardId")
      case True
      with c assms(3) have "c = x" using key_unique [OF assms(1,2)] by simp
      with assms(5) show ?thesis by (simp add: within_def)
    next
      case False
      then show ?thesis by (simp add: within_def)
    qed
  qed
  show ?thesis using m down up same by auto
qed

text \<open>
  The scenario of the specification: with A, B, C at 0, 1, 2, moving C to 0 gives C, A, B;
  moving A to 2 gives B, C, A; moving B to its own position changes nothing.
\<close>

theorem move_within_list_witness:
  "move_card no_failures 3 1 0 scenario_abc =
     (Json_success,
      scenario_abc\<lparr>cards_tbl := [new_card 1 1 ''A'' 1, new_card 2 1 ''B'' 2, new_card 3 1 ''C'' 0]\<rparr>)
   \<and> move_card no_failures 1 1 2 scenario_abc =
     (Json_success,
      scenario_abc\<lparr>cards_tbl := [new_card 1 1 ''A'' 2, new_card 2 1 ''B'' 0, new_card 3 1 ''C'' 1]\<rparr>)
   \<and> move_card no_failures 2 1 1 scenario_abc = (Json_success, scenario_abc)"
  using move_within_list [of scenario_abc "new_card 3 1 ''C'' 2" 3 1 2 0]
    move_within_list [of scenario_abc "new_card 1 1 ''A'' 0" 1 1 0 2]
    move_within_list [of scenario_abc "new_card 2 1 ''B'' 1" 2 1 1 1]
  by (simp add: scenario_abc_def seeded_def new_card_def list_exists_def)

section \<open>Moving a card to another list\<close>

text \<open>
  Claim C3. A card \<open>x\<close> of list \<open>a\<close> at position \<open>p\<close> is moved to position \<open>t\<close> of another
  list \<open>b\<close>, both lists dense, \<open>0 \<le> t \<le> n\<close> for the \<open>n\<close> cards of \<open>b\<close>, and no statement
  fails. Then every card of \<open>a\<close> with a position above \<open>p\<close> goes down by one, every card
  of \<open>b\<close> with a position at or above \<open>t\<close> goes up by one, and the moved card gets list
  \<open>b\<close> and position \<open>t\<close>; afterwards \<open>a\<close> has one card less and is dense, \<open>b\<close> has one
  card more and is dense.
\<close>

theorem move_across_lists:
  assumes ids: "distinct (map c_id (cards_tbl db))"
    and x: "x \<in> set (cards_tbl db)" "c_id x = cardId" "c_list_id x = a" "c_position x = p"
    and b: "b \<noteq> a" "list_exists db b"
    and da: "dense (card_positions db a)"
    and db: "dense (card_positions db b)"
    and t: "0 \<le> t" "t \<le> int (length (cards_of db b))"
  shows "case move_card no_failures cardId b t db of (res, db') \<Rightarrow>
     res = Json_success
     \<and> cards_tbl db' = map (\<lambda>c.
          if c_id c = cardId then c\<lparr>c_list_id := b, c_position := t\<rparr>
          else if c_list_id c = a \<and> p < c_position c then c\<lparr>c_position := c_position c - 1\<rparr>
          else if c_list_id c = b \<and> t \<le> c_position c then c\<lparr>c_position := c_position c + 1\<rparr>
          else c) (cards_tbl db)
     \<and> length (cards_of db' a) + 1 = length (cards_of db a)
     \<and> dense (card_positions db' a)
     \<and> length (cards_of db' b) = length (cards_of db b) + 1
     \<and> dense (card_positions db' b)
     \<and> sql_select (\<lambda>c. c_id c = cardId) (cards_tbl db') = [x\<lparr>c_list_id := b, c_position := t\<rparr>]"
proof -
  let ?cs = "cards_tbl db"
  let ?g = "across cardId a p b t"
  let ?db' = "db\<lparr>cards_tbl := map ?g ?cs\<rparr>"
  have mv: "move_card no_failures cardId b t db = (Json_success, ?db')"
    by (rule move_card_across [OF ids x b])
  have tbl: "cards_tbl ?db' = map (\<lambda>c.
          if c_id c = cardId then c\<lparr>c_list_id := b, c_position := t\<rparr>
          else if c_list_id c = a \<and> p < c_position c then c\<lparr>c_position := c_position c - 1\<rparr>
          else if c_list_id c = b \<and> t \<le> c_position c then c\<lparr>c_position := c_position c + 1\<rparr>
          else c) ?cs"
    by (simp add: across_def [abs_def])
  have xa: "x \<in> set (filter (\<lambda>c. c_list_id c = a) ?cs)" using x by simp
  then have pos: "0 < length (filter (\<lambda>c. c_list_id c = a) ?cs)"
    by (rule length_pos_if_in_set)
  have la: "length (cards_of ?db' a) + 1 = length (cards_of db a)"
    using across_source_dense(1) [OF ids x b(1) da [unfolded card_positions_rows], of t] pos
    by (simp add: cards_of_map) (simp add: cards_of_def)
  have dna: "dense (card_positions ?db' a)"
    using across_source_dense(2) [OF ids x b(1) da [unfolded card_positions_rows], of t]
    by (simp add: card_positions_map)
  have t': "t \<le> int (length (filter (\<lambda>c. c_list_id c = b) ?cs))"
    using t(2) by (simp add: cards_of_def)
  have lb: "length (cards_of ?db' b) = length (cards_of db b) + 1"
    using across_target_dense(1) [OF ids x b(1) db [unfolded card_positions_rows] t(1) t']
    by (simp add: cards_of_map) (simp add: cards_of_def)
  have dnb: "dense (card_positions ?db' b)"
    using across_target_dense(2) [OF ids x b(1) db [unfolded card_positions_rows] t(1) t']
    by (simp add: card_positions_map)
  have "sql_select (\<lambda>c. c_id c = cardId) (map ?g ?cs) =
      map ?g (sql_select (\<lambda>c. c_id c = cardId) ?cs)"
    unfolding sql_select_def filter_map
    by (rule arg_cong [where f = "map ?g"], rule filter_cong) (auto simp: across_def)
  then have sel: "sql_select (\<lambda>c. c_id c = cardId) (cards_tbl ?db') =
      [x\<lparr>c_list_id := b, c_position := t\<rparr>]"
    using select_by_key [OF ids x(1)] x(2) by (simp add: across_def)
  show ?thesis
    unfolding mv prod.case using tbl la dna lb dnb sel by blast
qed

text \<open>
  The scenario of the specification: X, Y in list 1 and Z in list 2; X moved to position
  1 of list 2 leaves Y at 0 in list 1 and Z, X at 0, 1 in list 2.
\<close>

theorem move_across_lists_witness:
  "case move_card no_failures 1 2 1 scenario_xyz of (res, db') \<Rightarrow>
     res = Json_success
     \<and> cards_tbl db' = [new_card 1 2 ''X'' 1, new_card 2 1 ''Y'' 0, new_card 3 2 ''Z'' 0]
     \<and> card_positions db' 1 = [0] \<and> card_positions db' 2 = [1, 0]"
  using move_across_lists [of scenario_xyz "new_card 1 1 ''X'' 0" 1 1 0 2 1]
  by (simp add: scenario_xyz_def seeded_def new_card_def list_exists_def dense_def
      card_positions_def cards_of_def move_card_def updateCardPosition_def sql_select_def
      sql_update_def no_failures_def)

section \<open>Moving a card and moving it back\<close>

lemma within_id [simp]: "c_id (within cardId l p t c) = c_id c"
  by (simp add: within_def)

lemma within_list_id [simp]: "c_list_id (within cardId l p t c) = c_list_id c"
  by (simp add: within_def)

lemma across_id [simp]: "c_id (across cardId a p b t c) = c_id c"
  by (simp add: across_def)

lemma within_back:
  assumes ids: "distinct (map c_id cs)"
    and x: "x \<in> set cs" "c_id x = cardId" "c_list_id x = l" "c_position x = p"
    and d: "distinct (map c_position (filter (\<lambda>c. c_list_id c = l) cs))"
  shows "map (within cardId l t p) (map (within cardId l p t) cs) = cs"
proof -
  have dcs: "distinct cs" using ids by (simp add: distinct_map)
  have inj: "inj_on c_position (set (filter (\<lambda>c. c_list_id c = l) cs))"
    using d by (simp add: distinct_map)
  have "within cardId l t p (within cardId l p t c) = c" if c: "c \<in> set cs" for c
  proof (cases "c_id c = cardId")
    case True
    with c have "c = x" using key_unique [OF ids x(1)] x(2) by simp
    with x(2,4) show ?thesis by (simp add: within_def)
  next
    case False
    show ?thesis
    proof (cases "c_list_id c = l")
      case True
      have "c_position c \<noteq> p"
      proof
        assume "c_position c = p"
        with True c x inj have "c = x" by (auto dest: inj_onD)
        with False x(2) show False by simp
      qed
      with False True show ?thesis by (auto simp: within_def)
    next
      case False
      with \<open>c_id c \<noteq> cardId\<close> show ?thesis by (simp add: within_def)
    qed
  qed
  then show ?thesis by (simp add: map_idI)
qed

text \<open>
  Claim C6. In a dense list, the card at position \<open>p\<close> is moved to an in-range position
  \<open>t\<close> and then from \<open>t\<close> back to \<open>p\<close>. Both moves succeed, the card is at \<open>t\<close> in
  between, and the second move gives back the state before the first: every card is at
  its original position.
\<close>

theorem move_round_trip:
  assumes ids: "distinct (map c_id (cards_tbl db))"
    and x: "x \<in> set (cards_tbl db)" "c_id x = cardId" "c_list_id x = l" "c_position x = p"
    and l: "list_exists db l"
    and d: "dense (card_positions db l)"
    and t: "0 \<le> t" "t < int (length (cards_of db l))"
  shows "case move_card no_failures cardId l t db of (res, db') \<Rightarrow>
           res = Json_success
           \<and> sql_select (\<lambda>c. c_id c = cardId) (cards_tbl db') = [x\<lparr>c_position := t\<rparr>]
           \<and> move_card no_failures cardId l p db' = (Json_success, db)"
proof -
  let ?cs = "cards_tbl db"
  let ?db' = "db\<lparr>cards_tbl := map (within cardId l p t) ?cs\<rparr>"
  have 1: "move_card no_failures cardId l t db = (Json_success, ?db')"
    by (rule move_card_within [OF ids x l])
  have ids': "distinct (map c_id (cards_tbl ?db'))"
    using ids by (simp add: comp_def)
  have x': "within cardId l p t x \<in> set (cards_tbl ?db')" using x(1) by simp
  have xt: "within cardId l p t x = x\<lparr>c_position := t\<rparr>" using x(2) by (simp add: within_def)
  have l': "list_exists ?db' l" using l by (simp add: list_exists_def)
  have 2: "move_card no_failures cardId l p ?db' =
      (Json_success, ?db'\<lparr>cards_tbl := map (within cardId l t p) (cards_tbl ?db')\<rparr>)"
    by (rule move_card_within [OF ids' x' _ _ _ l']) (use x in \<open>simp_all add: within_def\<close>)
  have "distinct (map c_position (filter (\<lambda>c. c_list_id c = l) ?cs))"
    using d by (simp add: dense_def card_positions_rows)
  then have rt: "map (within cardId l t p) (map (within cardId l p t) ?cs) = ?cs"
    by (rule within_back [OF ids x])
  have "sql_select (\<lambda>c. c_id c = cardId) (map (within cardId l p t) ?cs) =
      map (within cardId l p t) (sql_select (\<lambda>c. c_id c = cardId) ?cs)"
    by (simp add: sql_select_def filter_map comp_def)
  then have sel: "sql_select (\<lambda>c. c_id c = cardId) (cards_tbl ?db') = [x\<lparr>c_position := t\<rparr>]"
    using select_by_key [OF ids x(1)] x(2) xt by simp
  show ?thesis
    unfolding 1 prod.case using 2 rt sel by simp
qed

text \<open>With A, B, C at 0, 1, 2: C is moved to 0 and back to 2.\<close>

theorem move_round_trip_witness:
  "case move_card no_failures 3 1 0 scenario_abc of (res, db') \<Rightarrow>
     res = Json_success
     \<and> sql_select (\<lambda>c. c_id c = 3) (cards_tbl db') = [new_card 3 1 ''C'' 0]
     \<and> move_card no_failures 3 1 2 db' = (Json_success, scenario_abc)"
  using move_round_trip [of scenario_abc "new_card 3 1 ''C'' 2" 3 1 2 0]
  by (simp add: scenario_abc_def seeded_def new_card_def list_exists_def dense_def
      card_positions_def cards_of_def move_card_def updateCardPosition_def sql_select_def
      sql_update_def no_failures_def)

section \<open>Deleting a card\<close>

text \<open>
  Claim C4 says that removing the item at position \<open>p\<close> of a dense group moves every later
  item down by one, so that the group stays dense. \<open>DELETE /api/cards/:id\<close> only deletes
  the row: with A, B, C at 0, 1, 2, deleting A leaves B at 1 and C at 2, and the list is
  not dense any more.
\<close>

theorem delete_card_leaves_gap:
  "dense (card_positions scenario_abc 1)
   \<and> delete_card no_failures 1 scenario_abc =
       (Json_success, scenario_abc\<lparr>cards_tbl := [new_card 2 1 ''B'' 1, new_card 3 1 ''C'' 2]\<rparr>)
   \<and> card_positions (snd (delete_card no_failures 1 scenario_abc)) 1 = [1, 2]
   \<and> \<not> dense (card_positions (snd (delete_card no_failures 1 scenario_abc)) 1)"
  by (simp add: scenario_abc_def seeded_def new_card_def delete_card_def no_failures_def
      sql_delete_def card_positions_def cards_of_def dense_def)

section \<open>Moving a missing card, moving to a missing list\<close>

text \<open>
  Claim C8, as amended. In a state that satisfies the constraints of the schema, and with
  no failing statement: when no card has the id of the request, the move answers 404
  \<open>Card not found\<close> and the state is unchanged; when the card exists and the target list
  does not, the final assignment violates the foreign key of \<open>cards\<close>, the transaction
  is rolled back, the answer has status 500 and the state is unchanged.
\<close>

theorem move_missing_target:
  assumes "store_ok db"
  shows "(cardId \<notin> set (map c_id (cards_tbl db)) \<longrightarrow>
            move_card no_failures cardId list_id position db =
              (Json_error 404 ''Card not found'', db))
       \<and> (cardId \<in> set (map c_id (cards_tbl db)) \<and> \<not> list_exists db list_id \<longrightarrow>
            move_card no_failures cardId list_id position db =
              (Json_error 500 fk_message, db))"
proof (intro conjI impI)
  assume "cardId \<notin> set (map c_id (cards_tbl db))"
  then have "sql_select (\<lambda>c. c_id c = cardId) (cards_tbl db) = []"
    by (auto simp: sql_select_def filter_empty_conv)
  then show "move_card no_failures cardId list_id position db =
      (Json_error 404 ''Card not found'', db)"
    by (simp add: move_card_def no_failures_def rollback_def)
next
  assume a: "cardId \<in> set (map c_id (cards_tbl db)) \<and> \<not> list_exists db list_id"
  then obtain x where x: "x \<in> set (cards_tbl db)" "c_id x = cardId" by auto
  from assms have ids: "distinct (map c_id (cards_tbl db))"
    and fk: "list_exists db (c_list_id x)"
    using x(1) by (auto simp: store_ok_def list_all_iff)
  have sel: "sql_select (\<lambda>c. c_id c = cardId) (cards_tbl db) = [x]"
    using select_by_key [OF ids x(1)] x(2) by simp
  from a fk have ne: "c_list_id x \<noteq> list_id" by auto
  show "move_card no_failures cardId list_id position db = (Json_error 500 fk_message, db)"
    using a ne
    by (simp add: move_card_def updateCardPosition_def sel no_failures_def rollback_def
        list_exists_def Let_def)
qed

theorem move_missing_target_witness:
  "move_card no_failures 7 1 0 scenario_xyz = (Json_error 404 ''Card not found'', scenario_xyz)
   \<and> move_card no_failures 1 9 0 scenario_xyz = (Json_error 500 fk_message, scenario_xyz)"
  using move_missing_target [of scenario_xyz 7 1 0] move_missing_target [of scenario_xyz 1 9 0]
  by (simp add: scenario_xyz_def seeded_def new_card_def store_ok_def list_exists_def
      board_exists_def)

text \<open>
  The claim as written gives 404 for a missing target list. Card 1 exists, list 9 does
  not: the answer is the 500 of the store's error.
\<close>

theorem move_missing_target_not_404:
  "\<not> list_exists scenario_xyz 9
   \<and> fst (move_card no_failures 1 9 0 scenario_xyz) = Json_error 500 fk_message
   \<and> fst (move_card no_failures 1 9 0 scenario_xyz) \<noteq> Json_error 404 ''Card not found''"
  by (simp add: scenario_xyz_def seeded_def new_card_def list_exists_def move_card_def
      updateCardPosition_def sql_select_def sql_update_def no_failures_def rollback_def)

section \<open>Failures inside a move\<close>

lemma update_errors_Nil:
  "update_errors err n = [] \<longleftrightarrow> (\<forall>k<n. err (Update_list k) = None)"
  by (auto simp: update_errors_def List.map_filter_def filter_empty_conv)

lemma updateCardPosition_outcome:
  "(fst (updateCardPosition err snap cardId l t d) \<noteq> Json_success \<longrightarrow>
      snd (updateCardPosition err snap cardId l t d) = snap)
   \<and> (err Update_card \<noteq> None \<or> err Commit \<noteq> None \<longrightarrow>
        (\<exists>e'. updateCardPosition err snap cardId l t d = (Json_error 500 e', snap)))
   \<and> (err Update_card = None \<and> err Commit = None \<longrightarrow>
        updateCardPosition err snap cardId l t d =
          updateCardPosition no_failures snap cardId l t d)"
  by (auto simp: updateCardPosition_def rollback_def no_failures_def Let_def
      split: option.splits)

lemma move_card_outcome:
  "(fst (move_card err cardId list_id position db) \<noteq> Json_success \<longrightarrow>
      snd (move_card err cardId list_id position db) = db)
   \<and> ((\<exists>s\<in>set (move_steps cardId list_id position db). err s \<noteq> None) \<longrightarrow>
        (\<exists>e'. move_card err cardId list_id position db = (Json_error 500 e', db)))
   \<and> ((\<forall>s\<in>set (move_steps cardId list_id position db). err s = None) \<longrightarrow>
        move_card err cardId list_id position db =
          move_card no_failures cardId list_id position db)"
proof (cases "err Begin_transaction")
  case (Some e)
  then show ?thesis by (simp add: move_card_def move_steps_def)
next
  case b: None
  show ?thesis
  proof (cases "err Select_card")
    case (Some e)
    with b show ?thesis by (simp add: move_card_def move_steps_def rollback_def)
  next
    case s: None
    show ?thesis
    proof (cases "sql_select (\<lambda>c. c_id c = cardId) (cards_tbl db)")
      case Nil
      with b s show ?thesis
        by (simp add: move_card_def move_steps_def rollback_def no_failures_def)
    next
      case (Cons cur rest)
      note u = updateCardPosition_outcome [of err db cardId list_id position]
      consider (down) "c_list_id cur = list_id" "position > c_position cur"
        | (up) "c_list_id cur = list_id" "position < c_position cur"
        | (same) "c_list_id cur = list_id" "position = c_position cur"
        | (cross) "c_list_id cur \<noteq> list_id"
        by fastforce
      then show ?thesis
      proof cases
        case down
        show ?thesis
        proof (cases "err Shift_down")
          case (Some e)
          with b s Cons down show ?thesis
            by (simp add: move_card_def move_steps_def rollback_def)
        next
          case None
          with b s Cons down u show ?thesis
            by (simp add: move_card_def move_steps_def no_failures_def)
        qed
      next
        case up
        show ?thesis
        proof (cases "err Shift_up")
          case (Some e)
          with b s Cons up show ?thesis
            by (simp add: move_card_def move_steps_def rollback_def)
        next
          case None
          with b s Cons up u show ?thesis
            by (simp add: move_card_def move_steps_def no_failures_def)
        qed
      next
        case same
        with b s Cons show ?thesis
          by (cases "err Commit")
            (simp_all add: move_card_def move_steps_def rollback_def no_failures_def)
      next
        case cross
        show ?thesis
        proof (cases "err Close_gap")
          case (Some e)
          with b s Cons cross show ?thesis
            by (simp add: move_card_def move_steps_def rollback_def)
        next
          case c: None
          show ?thesis
          proof (cases "err Open_slot")
            case (Some e)
            with b s c Cons cross show ?thesis
              by (simp add: move_card_def move_steps_def rollback_def Let_def)
          next
            case None
            with b s c Cons cross u show ?thesis
              by (simp add: move_card_def move_steps_def no_failures_def Let_def)
          qed
        qed
      qed
    qed
  qed
qed


lemma reorder_list_outcome:
  "(fst (reorder_list err listId position db) \<noteq> Json_success \<longrightarrow>
      snd (reorder_list err listId position db) = db)
   \<and> ((\<exists>s\<in>set (reorder_steps listId position db). err s \<noteq> None) \<longrightarrow>
        (\<exists>e'. reorder_list err listId position db = (Json_error 500 e', db)))
   \<and> ((\<forall>s\<in>set (reorder_steps listId position db). err s = None) \<longrightarrow>
        reorder_list err listId position db = reorder_list no_failures listId position db)"
proof (cases "err Begin_transaction")
  case (Some e)
  then show ?thesis by (simp add: reorder_list_def reorder_steps_def)
next
  case b: None
  show ?thesis
  proof (cases "err Select_list")
    case (Some e)
    with b show ?thesis by (simp add: reorder_list_def reorder_steps_def rollback_def)
  next
    case s: None
    show ?thesis
    proof (cases "sql_select (\<lambda>l. l_id l = listId) (lists_tbl db)")
      case Nil
      with b s show ?thesis
        by (simp add: reorder_list_def reorder_steps_def rollback_def no_failures_def)
    next
      case (Cons cur rest)
      let ?n = "length (resequenced listId position cur db)"
      have clean: "update_errors no_failures ?n = []"
        by (simp add: update_errors_Nil no_failures_def)
      show ?thesis
      proof (cases "err Select_board_lists")
        case (Some e)
        with b s Cons show ?thesis
          by (simp add: reorder_list_def reorder_steps_def rollback_def)
      next
        case a: None
        show ?thesis
        proof (cases "update_errors err ?n")
          case (Cons e es)
          then have "\<not> (\<forall>k<?n. err (Update_list k) = None)"
            using update_errors_Nil [of err ?n] by simp
          then obtain k where k: "k < ?n" "err (Update_list k) \<noteq> None" by blast
          note sel = \<open>sql_select (\<lambda>l. l_id l = listId) (lists_tbl db) = cur # rest\<close>
          have r: "reorder_list err listId position db = (Json_error 500 e, db)"
            using b s a sel Cons by (simp add: reorder_list_def rollback_def Let_def)
          have "Update_list k \<in> set (reorder_steps listId position db)"
            using k(1) sel by (simp add: reorder_steps_def)
          with k(2) have "\<not> (\<forall>s\<in>set (reorder_steps listId position db). err s = None)"
            by auto
          with r show ?thesis by auto
        next
          case Nil
          then have ok: "\<forall>k<?n. err (Update_list k) = None"
            using update_errors_Nil [of err ?n] by simp
          then have ok': "\<forall>s\<in>set (map Update_list [0..<?n]). err s = None" by auto
          show ?thesis
          proof (cases "err Commit")
            case (Some e)
            with b s a Cons Nil show ?thesis
              by (simp add: reorder_list_def reorder_steps_def rollback_def Let_def)
          next
            case None
            with b s a Cons Nil clean ok' show ?thesis
              by (simp add: reorder_list_def reorder_steps_def no_failures_def Let_def)
          qed
        qed
      qed
    qed
  qed
qed

text \<open>
  The lemmas above are about a request that has the connection to itself from
  \<open>db.beginTransaction\<close> to its answer; \<open>move_card\<close> is that request. On the connection
  it is the handler's callbacks run one after the other with no other request between
  them.
\<close>

lemma select_after_update:
  assumes "\<And>c. c_id (upd c) = c_id c"
  shows "(sql_select (\<lambda>c. c_id c = i) (sql_update cond upd xs) = []) =
         (sql_select (\<lambda>c. c_id c = i) xs = [])"
  using assms by (induction xs) (simp_all add: sql_select_def sql_update_def)

lemma alone_is_move_card:
  "serve [0, 0, 0, 0, 0, 0] [((cardId, list_id, position), Begin_move)] (idle db) =
     ([((cardId, list_id, position),
        Answered (fst (move_card no_failures cardId list_id position db)))],
      idle (snd (move_card no_failures cardId list_id position db)))"
proof (cases "sql_select (\<lambda>c. c_id c = cardId) (cards_tbl db)")
  case Nil
  then show ?thesis
    by (simp add: idle_def move_card_def no_failures_def rollback_def)
next
  case (Cons cur rest)
  have ne: "sql_select (\<lambda>c. c_id c = cardId) (cards_tbl db) \<noteq> []" using Cons by simp
  have pres: "(sql_select (\<lambda>c. c_id c = cardId)
        (sql_update cond (\<lambda>c. c\<lparr>c_position := f c\<rparr>) xs) = []) =
      (sql_select (\<lambda>c. c_id c = cardId) xs = [])" for cond f xs
    by (rule select_after_update) simp
  show ?thesis
  proof (cases "c_list_id cur = list_id")
    case same: True
    consider (down) "position > c_position cur" | (up) "position < c_position cur"
      | (stay) "position = c_position cur" by linarith
    then show ?thesis
    proof cases
      case down
      with Cons same ne show ?thesis
        by (simp add: idle_def move_card_def updateCardPosition_def no_failures_def
            rollback_def move_queries_def update_cards_def pres list_exists_def Let_def)
    next
      case up
      with Cons same ne show ?thesis
        by (simp add: idle_def move_card_def updateCardPosition_def no_failures_def
            rollback_def move_queries_def update_cards_def pres list_exists_def Let_def)
    next
      case stay
      with Cons same show ?thesis
        by (simp add: idle_def move_card_def no_failures_def move_queries_def)
    qed
  next
    case False
    with Cons ne show ?thesis
      by (simp add: idle_def move_card_def updateCardPosition_def no_failures_def
          rollback_def move_queries_def update_cards_def pres list_exists_def Let_def)
  qed
qed

text \<open>
  Claim C5 says that when a sub-step of a move fails, all its sub-steps are undone and
  the persisted state is exactly as it was before the operation: a partial shift is never
  committed. The handlers open a transaction for that, and the server has one
  connection for all of them. With X and Y at 0 and 1 in list 1 and Z in list 2, the
  request that moves X to the missing list 9 closes the gap in list 1; a second move
  begins its transaction before the first has gone on, and \<open>START TRANSACTION\<close> commits
  the shifted Y; the final assignment of the first request fails by the foreign key, its
  \<open>ROLLBACK\<close> finds nothing to undo, and it answers 500 with Y left at position 0 beside
  X. Alone, the same request leaves the state as it was.
\<close>

theorem shared_connection_commits_partial_shift:
  "move_card no_failures 1 9 0 scenario_xyz = (Json_error 500 fk_message, scenario_xyz)
   \<and> serve [0, 0, 0, 1, 0, 0, 0, 1, 1]
       [((1, 9, 0), Begin_move), ((3, 2, 0), Begin_move)] (idle scenario_xyz) =
       ([((1, 9, 0), Answered (Json_error 500 fk_message)),
         ((3, 2, 0), Answered Json_success)],
        idle (scenario_xyz\<lparr>cards_tbl :=
           [new_card 1 1 ''X'' 0, new_card 2 1 ''Y'' 0, new_card 3 2 ''Z'' 0]\<rparr>))
   \<and> card_positions scenario_xyz 1 = [0, 1]
   \<and> card_positions
         (durable (snd (serve [0, 0, 0, 1, 0, 0, 0, 1, 1]
            [((1, 9, 0), Begin_move), ((3, 2, 0), Begin_move)] (idle scenario_xyz)))) 1 = [0, 0]
   \<and> \<not> dense (card_positions
         (durable (snd (serve [0, 0, 0, 1, 0, 0, 0, 1, 1]
            [((1, 9, 0), Begin_move), ((3, 2, 0), Begin_move)] (idle scenario_xyz)))) 1)"
proof -
  have alone: "move_card no_failures 1 9 0 scenario_xyz =
      (Json_error 500 fk_message, scenario_xyz)"
    by (simp add: move_card_def updateCardPosition_def rollback_def no_failures_def
        scenario_xyz_def seeded_def new_card_def sql_select_def sql_update_def
        list_exists_def Let_def)
  have shared: "serve [0, 0, 0, 1, 0, 0, 0, 1, 1]
       [((1, 9, 0), Begin_move), ((3, 2, 0), Begin_move)] (idle scenario_xyz) =
       ([((1, 9, 0), Answered (Json_error 500 fk_message)),
         ((3, 2, 0), Answered Json_success)],
        idle (scenario_xyz\<lparr>cards_tbl :=
           [new_card 1 1 ''X'' 0, new_card 2 1 ''Y'' 0, new_card 3 2 ''Z'' 0]\<rparr>))"
    by (simp add: idle_def scenario_xyz_def seeded_def new_card_def move_queries_def
        update_cards_def sql_select_def sql_update_def list_exists_def Let_def)
  have before: "card_positions scenario_xyz 1 = [0, 1]"
    by (simp add: scenario_xyz_def seeded_def new_card_def card_positions_def cards_of_def)
  have after: "card_positions
         (durable (idle (scenario_xyz\<lparr>cards_tbl :=
           [new_card 1 1 ''X'' 0, new_card 2 1 ''Y'' 0, new_card 3 2 ''Z'' 0]\<rparr>))) 1 = [0, 0]"
    by (simp add: idle_def new_card_def card_positions_def cards_of_def)
  have broken: "\<not> dense [0, 0]" by (simp add: dense_def)
  show ?thesis
    unfolding shared snd_conv after
    using alone before broken by simp
qed

section \<open>The due date of a card\<close>

















text \<open>
  A string that matches the pattern and names no day of the calendar passes the
  handler's check and is refused by the column: the answer is 500 and nothing is stored.
  The claim above says nothing of such a string.
\<close>

lemma no_calendar_date_refused:
  "formattedDate ''2024-02-30'' = Inr (Some ''2024-02-30'')
   \<and> create_card no_failures (dated_request ''2024-02-30'') scenario_abc =
       (Json_error 500 date_message, scenario_abc)
   \<and> update_card no_failures 2 (dated_update ''9999-99-99'') scenario_abc =
       (Json_error 500 date_message, scenario_abc)"
proof -
  have f: "formattedDate ''2024-02-30'' = Inr (Some ''2024-02-30'')"
    "formattedDate ''9999-99-99'' = Inr (Some ''9999-99-99'')"
    by (simp_all add: formattedDate_def trim_def is_whitespace_def split_T_first_def
        matches_date_def is_digit_def)
  have n: "\<not> date_accepted (Some ''2024-02-30'')" "\<not> date_accepted (Some ''9999-99-99'')"
    by (simp_all add: date_accepted_def calendar_date_def matches_date_def is_digit_def
        number_def days_in_month_def leap_year_def Let_def)
  have "create_card no_failures (dated_request ''2024-02-30'') scenario_abc =
       (Json_error 500 date_message, scenario_abc)"
    using f(1) n(1)
    by (simp add: create_card_def insert_card_def dated_request_def no_failures_def)
  moreover have "update_card no_failures 2 (dated_update ''9999-99-99'') scenario_abc =
       (Json_error 500 date_message, scenario_abc)"
    using f(2) n(2)
    by (simp add: update_card_def write_card_def dated_update_def no_failures_def
        scenario_abc_def seeded_def new_card_def sql_select_def)
  ultimately show ?thesis using f(1) by simp
qed

section \<open>Appending to a group\<close>

lemma nextPos_Max: "nextPos ps = (if ps = [] then 0 else Max (set ps) + 1)"
proof (cases ps)
  case Nil
  then show ?thesis by (simp add: nextPos_def sql_max_def)
next
  case (Cons p qs)
  have "fold max qs p = Max (set (p # qs))" by (rule Max.set_eq_fold [symmetric])
  with Cons show ?thesis by (simp add: nextPos_def sql_max_def)
qed


lemma nextPos_dense: "dense ps \<Longrightarrow> nextPos ps = int (length ps)"
proof (cases "ps = []")
  case True
  then show ?thesis by (simp add: nextPos_Max)
next
  case False
  assume d: "dense ps"
  then have rng: "\<forall>p\<in>set ps. 0 \<le> p \<and> p < int (length ps)" and dist: "distinct ps"
    by (simp_all add: dense_def list_all_iff)
  have "set ps \<subseteq> int ` {0..<length ps}"
  proof
    fix p assume "p \<in> set ps"
    with rng have "0 \<le> p" "p < int (length ps)" by auto
    then have "nat p < length ps" "p = int (nat p)" by auto
    then show "p \<in> int ` {0..<length ps}" by (metis atLeastLessThan_iff imageI zero_le)
  qed
  moreover have "card (set ps) = card (int ` {0..<length ps})"
    using dist by (simp add: distinct_card card_image)
  ultimately have eq: "set ps = int ` {0..<length ps}"
    by (simp add: card_subset_eq)
  have "Max (set ps) = int (length ps - 1)"
    unfolding eq using False by (intro Max_eqI) auto
  moreover have "0 < length ps" using False by simp
  ultimately show ?thesis using False by (simp add: nextPos_Max)
qed









section \<open>The list reorder, row by row\<close>

lemma renumber_id [simp]: "l_id (renumber R k r) = l_id r"
  by (simp add: renumber_def split: option.split)

lemma renumber_board [simp]: "l_board_id (renumber R k r) = l_board_id r"
  by (simp add: renumber_def split: option.split)

lemma renumber_outside: "l_id r \<notin> set (map l_id R) \<Longrightarrow> renumber R k r = r"
proof -
  assume "l_id r \<notin> set (map l_id R)"
  then have N: "map_of (zip (map l_id R) [k..<k + length R]) (l_id r) = None"
    by (subst map_of_zip_is_None) simp_all
  show ?thesis unfolding renumber_def N by simp
qed

lemma renumber_nth:
  assumes "distinct (map l_id R)" and "i < length R" and "l_id r = l_id (R ! i)"
  shows "renumber R k r = r\<lparr>l_position := int (k + i)\<rparr>"
proof -
  have "map_of (zip (map l_id R) [k..<k + length R]) (map l_id R ! i) = Some ([k..<k + length R] ! i)"
    by (rule map_of_zip_nth) (use assms in simp_all)
  with assms(2,3) show ?thesis by (simp add: renumber_def)
qed

lemma update_positions_map:
  "distinct (map l_id R) \<Longrightarrow> update_positions k R tbl = map (renumber R k) tbl"
proof (induction R arbitrary: k tbl)
  case Nil
  have "renumber [] k = (\<lambda>r. r)" by (rule ext) (simp add: renumber_def)
  then show ?case by simp
next
  case (Cons x R)
  from Cons.prems have d: "distinct (map l_id R)" and nx: "l_id x \<notin> set (map l_id R)" by auto
  have "[k..<k + length (x # R)] = k # [Suc k..<k + length (x # R)]"
    by (rule upt_conv_Cons) simp
  then have upt: "[k..<k + length (x # R)] = k # [Suc k..<Suc k + length R]"
    by simp
  have "renumber R (Suc k) (if l_id r = l_id x then r\<lparr>l_position := int k\<rparr> else r) =
      renumber (x # R) k r" for r
  proof (cases "l_id r = l_id x")
    case True
    then have "l_id (r\<lparr>l_position := int k\<rparr>) \<notin> set (map l_id R)" using nx by simp
    then have "renumber R (Suc k) (r\<lparr>l_position := int k\<rparr>) = r\<lparr>l_position := int k\<rparr>"
      by (rule renumber_outside)
    moreover have "renumber (x # R) k r = r\<lparr>l_position := int k\<rparr>"
      unfolding renumber_def upt using True by simp
    ultimately show ?thesis using True by simp
  next
    case False
    then have "renumber (x # R) k r = renumber R (Suc k) r"
      unfolding renumber_def upt by simp
    with False show ?thesis by simp
  qed
  then have "map (renumber R (Suc k)) (sql_update (\<lambda>r. l_id r = l_id x)
      (\<lambda>r. r\<lparr>l_position := int k\<rparr>) tbl) = map (renumber (x # R) k) tbl"
    by (simp add: sql_update_def)
  with Cons.IH [OF d] show ?case by simp
qed

lemma splice_insert_facts:
  assumes "distinct xs" and "x \<notin> set xs"
  shows "set (splice_insert start x xs) = insert x (set xs)"
    and "distinct (splice_insert start x xs)"
    and "length (splice_insert start x xs) = length xs + 1"
    and "splice_insert start x xs !
           nat (if start < 0 then max (int (length xs) + start) 0
                else min start (int (length xs))) = x"
proof -
  define a where "a = nat (if start < 0 then max (int (length xs) + start) 0
                else min start (int (length xs)))"
  have S: "splice_insert start x xs = take a xs @ [x] @ drop a xs"
    by (simp add: splice_insert_def a_def Let_def)
  have a: "a \<le> length xs" by (auto simp: a_def)
  have u: "set (take a xs) \<union> set (drop a xs) = set xs"
    by (metis append_take_drop_id set_append)
  show "set (splice_insert start x xs) = insert x (set xs)"
    unfolding S using u by auto
  have "set (take a xs) \<inter> set (drop a xs) = {}"
    using assms(1) by (simp add: set_take_disj_set_drop_if_distinct)
  moreover have "x \<notin> set (take a xs)" "x \<notin> set (drop a xs)"
    using assms(2) by (auto dest: in_set_takeD in_set_dropD)
  ultimately show "distinct (splice_insert start x xs)"
    unfolding S using assms(1) by simp
  show "length (splice_insert start x xs) = length xs + 1"
    unfolding S using a by simp
  have "(take a xs @ [x] @ drop a xs) ! a = x"
    using a by (simp add: nth_append)
  then show "splice_insert start x xs !
           nat (if start < 0 then max (int (length xs) + start) 0
                else min start (int (length xs))) = x"
    unfolding S a_def .
qed

lemma resequenced_facts:
  assumes ids: "distinct (map l_id (lists_tbl db))"
    and cur: "cur \<in> set (lists_tbl db)" "l_id cur = listId"
  shows "set (resequenced listId position cur db) = set (lists_of db (l_board_id cur))"
    and "distinct (map l_id (resequenced listId position cur db))"
    and "length (resequenced listId position cur db) = length (lists_of db (l_board_id cur))"
    and "resequenced listId position cur db !
           nat (if position < 0
                then max (int (length (lists_of db (l_board_id cur))) - 1 + position) 0
                else min position (int (length (lists_of db (l_board_id cur))) - 1)) = cur"
proof -
  define B where "B = lists_of db (l_board_id cur)"
  define other where "other = filter (\<lambda>list. l_id list \<noteq> listId) (sort_key l_position B)"
  let ?R = "resequenced listId position cur db"
  have R: "?R = splice_insert position cur other"
    by (simp add: resequenced_def Let_def sql_select_def lists_of_def other_def B_def)
  have uniq: "\<And>r. r \<in> set (lists_tbl db) \<Longrightarrow> l_id r = listId \<Longrightarrow> r = cur"
    using key_unique [OF ids cur(1)] cur(2) by simp
  have curB: "cur \<in> set B" using cur(1) by (simp add: lists_of_def B_def)
  have sub: "set B \<subseteq> set (lists_tbl db)" by (auto simp: lists_of_def B_def)
  have so: "set other = set B - {cur}"
    using uniq cur(2) sub by (auto simp: other_def)
  have dB: "distinct (map l_id B)"
    using ids by (simp add: lists_of_def B_def distinct_map_filter)
  then have dBr: "distinct B" and injB: "inj_on l_id (set B)"
    by (simp_all add: distinct_map)
  have dother: "distinct other" using dBr by (simp add: other_def)
  have nc: "cur \<notin> set other" using so by simp
  note sp = splice_insert_facts [OF dother nc, of position]
  show set: "set ?R = set (lists_of db (l_board_id cur))"
    unfolding R B_def [symmetric] using sp(1) so curB by auto
  have dR: "distinct ?R" unfolding R by (rule sp(2))
  have setB: "set ?R = set B" using set by (simp add: B_def)
  show "distinct (map l_id ?R)"
    using dR injB setB by (simp add: distinct_map)
  have len: "length ?R = length B"
    using dR dBr setB by (metis distinct_card)
  then show "length ?R = length (lists_of db (l_board_id cur))" by (simp add: B_def)
  have e: "int (length other) = int (length B) - 1"
    using len sp(3) unfolding R by simp
  from sp(4) [unfolded e] show "?R ! nat (if position < 0
                then max (int (length (lists_of db (l_board_id cur))) - 1 + position) 0
                else min position (int (length (lists_of db (l_board_id cur))) - 1)) = cur"
    unfolding R B_def [symmetric] by simp
qed


lemma dense_set_eq: "dense ps \<longleftrightarrow> distinct ps \<and> set ps = {0..<int (length ps)}"
proof
  assume d: "dense ps"
  then have rng: "\<forall>p\<in>set ps. 0 \<le> p \<and> p < int (length ps)" and dist: "distinct ps"
    by (simp_all add: dense_def list_all_iff)
  have "set ps \<subseteq> {0..<int (length ps)}" using rng by auto
  moreover have "card (set ps) = card {0..<int (length ps)}"
    using dist by (simp add: distinct_card)
  ultimately have "set ps = {0..<int (length ps)}"
    by (simp add: card_subset_eq)
  with dist show "distinct ps \<and> set ps = {0..<int (length ps)}" by simp
next
  assume a: "distinct ps \<and> set ps = {0..<int (length ps)}"
  then have "\<forall>p\<in>set ps. 0 \<le> p \<and> p < int (length ps)" by auto
  with a show "dense ps" by (simp add: dense_def list_all_iff)
qed

lemma lists_of_renumber:
  "lists_of (db\<lparr>lists_tbl := map (renumber R k) (lists_tbl db)\<rparr>) b =
     map (renumber R k) (lists_of db b)"
  by (simp add: lists_of_def filter_map comp_def)

lemma reorder_list_result:
  assumes ids: "distinct (map l_id (lists_tbl db))"
    and cur: "cur \<in> set (lists_tbl db)" "l_id cur = listId"
  shows "reorder_list no_failures listId position db =
           (Json_success,
            db\<lparr>lists_tbl :=
                 map (renumber (resequenced listId position cur db) 0) (lists_tbl db)\<rparr>)"
proof -
  have sel: "sql_select (\<lambda>l. l_id l = listId) (lists_tbl db) = [cur]"
    using select_by_key [OF ids cur(1)] cur(2) by simp
  have clean: "update_errors (\<lambda>_. None) n = []" for n
    by (simp add: update_errors_Nil)
  have "update_positions 0 (resequenced listId position cur db) (lists_tbl db) =
      map (renumber (resequenced listId position cur db) 0) (lists_tbl db)"
    by (rule update_positions_map) (rule resequenced_facts(2) [OF ids cur])
  then show ?thesis
    by (simp add: reorder_list_def no_failures_def sel clean Let_def)
qed

lemma renumbered_dense:
  assumes ids: "distinct (map l_id (lists_tbl db))"
    and cur: "cur \<in> set (lists_tbl db)" "l_id cur = listId"
  shows "dense (map l_position
           (map (renumber (resequenced listId position cur db) 0)
              (lists_of db (l_board_id cur))))"
proof -
  define R where "R = resequenced listId position cur db"
  define B where "B = lists_of db (l_board_id cur)"
  note f = resequenced_facts [OF ids cur, of position, folded R_def B_def]
  have dB: "distinct B"
    using ids by (simp add: B_def lists_of_def distinct_map distinct_map_filter)
  have idx: "\<exists>i<length R. R ! i = r \<and> l_position (renumber R 0 r) = int i" if "r \<in> set B" for r
  proof -
    from that f(1) have "r \<in> set R" by simp
    then obtain i where i: "i < length R" "R ! i = r"
      unfolding in_set_conv_nth by blast
    then have "renumber R 0 r = r\<lparr>l_position := int (0 + i)\<rparr>"
      using renumber_nth [OF f(2), of i r 0] by simp
    with i show ?thesis by auto
  qed
  have "dense (map (\<lambda>r. l_position (renumber R 0 r)) B)"
  proof (subst dense_rows [OF dB], intro conjI ballI inj_onI)
    fix r1 r2
    assume a: "r1 \<in> set B" "r2 \<in> set B"
      and e: "l_position (renumber R 0 r1) = l_position (renumber R 0 r2)"
    from idx [OF a(1)] idx [OF a(2)] e show "r1 = r2" by auto
  next
    fix r assume "r \<in> set B"
    from idx [OF this] f(3) show "0 \<le> l_position (renumber R 0 r)" by auto
  next
    fix r assume "r \<in> set B"
    from idx [OF this] f(3) show "l_position (renumber R 0 r) < int (length B)" by auto
  qed
  then show ?thesis by (simp add: R_def B_def comp_def)
qed

lemma renumbered_elsewhere:
  assumes ids: "distinct (map l_id (lists_tbl db))"
    and cur: "cur \<in> set (lists_tbl db)" "l_id cur = listId"
    and b: "b \<noteq> l_board_id cur"
  shows "map (renumber (resequenced listId position cur db) k) (lists_of db b) = lists_of db b"
proof (rule map_idI)
  fix r assume r: "r \<in> set (lists_of db b)"
  have "l_id r \<notin> set (map l_id (resequenced listId position cur db))"
  proof
    assume "l_id r \<in> set (map l_id (resequenced listId position cur db))"
    then obtain r2 where r2: "r2 \<in> set (lists_of db (l_board_id cur))" "l_id r2 = l_id r"
      unfolding set_map resequenced_facts(1) [OF ids cur] by auto
    from r r2 have "r2 = r"
      using key_unique [OF ids, of r r2] by (simp add: lists_of_def)
    with r r2(1) b show False by (simp add: lists_of_def)
  qed
  then show "renumber (resequenced listId position cur db) k r = r"
    by (rule renumber_outside)
qed

section \<open>Reordering the lists of a board\<close>

text \<open>
  Claim C10. A list that exists is reordered to any integer \<open>position\<close>, in a table with
  unique ids and with no failing statement. The request succeeds; every list of the
  board gets as position its index in the array after the \<open>splice\<close>; the board keeps
  its lists, and their positions are without duplicates and are exactly
  \<open>{0, ..., n-1}\<close>, whatever they were before. The moved list ends at \<open>position\<close> when
  \<open>0 \<le> position \<le> n-1\<close>, at \<open>n-1\<close> for a greater one, and for a negative one at
  \<open>n-1+position\<close> or at 0 if that is negative. The lists of other boards and all
  cards are untouched.
\<close>

theorem reorder_list_dense:
  assumes ids: "distinct (map l_id (lists_tbl db))"
    and cur: "cur \<in> set (lists_tbl db)" "l_id cur = listId"
  shows "case reorder_list no_failures listId position db of (res, db') \<Rightarrow>
     res = Json_success
     \<and> (\<forall>i<length (resequenced listId position cur db). \<forall>r\<in>set (lists_tbl db').
           l_id r = l_id (resequenced listId position cur db ! i) \<longrightarrow> l_position r = int i)
     \<and> length (lists_of db' (l_board_id cur)) = length (lists_of db (l_board_id cur))
     \<and> distinct (list_positions db' (l_board_id cur))
     \<and> set (list_positions db' (l_board_id cur)) =
           {0..<int (length (lists_of db' (l_board_id cur)))}
     \<and> (\<forall>r\<in>set (lists_tbl db'). l_id r = listId \<longrightarrow>
           l_position r =
             (if position < 0
              then max (int (length (lists_of db (l_board_id cur))) - 1 + position) 0
              else min position (int (length (lists_of db (l_board_id cur))) - 1)))
     \<and> (\<forall>b. b \<noteq> l_board_id cur \<longrightarrow> lists_of db' b = lists_of db b)
     \<and> cards_tbl db' = cards_tbl db"
proof -
  define R where "R = resequenced listId position cur db"
  define B where "B = l_board_id cur"
  let ?db' = "db\<lparr>lists_tbl := map (renumber R 0) (lists_tbl db)\<rparr>"
  note f = resequenced_facts [OF ids cur, of position, folded R_def B_def]
  have res: "reorder_list no_failures listId position db = (Json_success, ?db')"
    unfolding R_def by (rule reorder_list_result [OF ids cur])
  have idx: "\<forall>i<length R. \<forall>r\<in>set (lists_tbl ?db'). l_id r = l_id (R ! i) \<longrightarrow>
      l_position r = int i"
  proof (intro allI impI ballI)
    fix i r assume i: "i < length R" and r: "r \<in> set (lists_tbl ?db')"
      and e: "l_id r = l_id (R ! i)"
    from r obtain r0 where r0: "r = renumber R 0 r0" by auto
    with e have "l_id r0 = l_id (R ! i)" by simp
    from renumber_nth [OF f(2) i this, of 0] r0 show "l_position r = int i" by simp
  qed
  have lof: "lists_of ?db' b = map (renumber R 0) (lists_of db b)" for b
    by (rule lists_of_renumber)
  have len: "length (lists_of ?db' B) = length (lists_of db B)"
    by (simp add: lof)
  have "dense (list_positions ?db' B)"
    using renumbered_dense [OF ids cur, of position]
    by (simp add: list_positions_def lists_of_renumber R_def B_def)
  then have dn: "distinct (list_positions ?db' B)"
    and st: "set (list_positions ?db' B) = {0..<int (length (lists_of ?db' B))}"
    by (simp_all add: dense_set_eq list_positions_def)
  have curB: "cur \<in> set (lists_of db B)" using cur(1) by (simp add: lists_of_def B_def)
  then have pos: "0 < length (lists_of db B)" by (rule length_pos_if_in_set)
  define a where "a = (if position < 0
              then max (int (length (lists_of db B)) - 1 + position) 0
              else min position (int (length (lists_of db B)) - 1))"
  have n1: "1 \<le> int (length (lists_of db B))" using pos by linarith
  have a0: "0 \<le> a \<and> a < int (length (lists_of db B))"
    unfolding a_def using n1 by arith
  then have a: "0 \<le> a" "nat a < length R"
    by (simp_all add: f(3) nat_less_iff)
  have "R ! nat a = cur" using f(4) by (simp add: a_def)
  with idx a cur(2) have moved: "\<forall>r\<in>set (lists_tbl ?db'). l_id r = listId \<longrightarrow> l_position r = a"
    by (metis int_nat_eq)
  have other: "\<forall>b. b \<noteq> B \<longrightarrow> lists_of ?db' b = lists_of db b"
    using renumbered_elsewhere [OF ids cur, of _ position 0]
    by (simp add: lists_of_renumber R_def B_def)
  show ?thesis
    unfolding res prod.case
    using idx len dn st moved other
    by (simp add: R_def B_def a_def)
qed

text \<open>
  On the seeded board: list 3 sent to position -7 ends first, list 1 sent to position 99
  ends last, list 1 sent to position -1 ends second.
\<close>

theorem reorder_list_dense_witness:
  "(case reorder_list no_failures 3 (- 7) seeded of (res, db') \<Rightarrow>
      res = Json_success \<and> distinct (list_positions db' 1)
      \<and> set (list_positions db' 1) = {0..<3}
      \<and> (\<forall>r\<in>set (lists_tbl db'). l_id r = 3 \<longrightarrow> l_position r = 0))
   \<and> (case reorder_list no_failures 1 99 seeded of (res, db') \<Rightarrow>
      res = Json_success \<and> distinct (list_positions db' 1)
      \<and> set (list_positions db' 1) = {0..<3}
      \<and> (\<forall>r\<in>set (lists_tbl db'). l_id r = 1 \<longrightarrow> l_position r = 2))
   \<and> list_positions (snd (reorder_list no_failures 3 (- 7) seeded)) 1 = [1, 2, 0]
   \<and> list_positions (snd (reorder_list no_failures 1 99 seeded)) 1 = [2, 0, 1]
   \<and> list_positions (snd (reorder_list no_failures 1 (- 1) seeded)) 1 = [1, 0, 2]"
proof -
  have ids: "distinct (map l_id (lists_tbl seeded))" by (simp add: seeded_def)
  have n: "length (lists_of seeded 1) = 3" by (simp add: seeded_def lists_of_def)
  have l3: "\<lparr>l_id = 3, l_board_id = 1, l_title = ''Done'', l_position = 2\<rparr>
      \<in> set (lists_tbl seeded)" by (simp add: seeded_def)
  have l1: "\<lparr>l_id = 1, l_board_id = 1, l_title = ''To Do'', l_position = 0\<rparr>
      \<in> set (lists_tbl seeded)" by (simp add: seeded_def)
  have 1: "case reorder_list no_failures 3 (- 7) seeded of (res, db') \<Rightarrow>
      res = Json_success \<and> distinct (list_positions db' 1)
      \<and> set (list_positions db' 1) = {0..<3}
      \<and> (\<forall>r\<in>set (lists_tbl db'). l_id r = 3 \<longrightarrow> l_position r = 0)"
    using reorder_list_dense [OF ids l3, of 3 "- 7"] by (simp add: case_prod_beta n)
  have 2: "case reorder_list no_failures 1 99 seeded of (res, db') \<Rightarrow>
      res = Json_success \<and> distinct (list_positions db' 1)
      \<and> set (list_positions db' 1) = {0..<3}
      \<and> (\<forall>r\<in>set (lists_tbl db'). l_id r = 1 \<longrightarrow> l_position r = 2)"
    using reorder_list_dense [OF ids l1, of 1 99] by (simp add: case_prod_beta n)
  have 3: "list_positions (snd (reorder_list no_failures 3 (- 7) seeded)) 1 = [1, 2, 0]"
    "list_positions (snd (reorder_list no_failures 1 99 seeded)) 1 = [2, 0, 1]"
    "list_positions (snd (reorder_list no_failures 1 (- 1) seeded)) 1 = [1, 0, 2]"
    by (simp_all add: reorder_list_def resequenced_def splice_insert_def update_errors_def
        List.map_filter_def no_failures_def sql_select_def sql_update_def seeded_def
        list_positions_def lists_of_def Let_def)
  from 1 2 3 show ?thesis by simp
qed

section \<open>The density invariant\<close>

lemma dense_snoc: "dense ps \<Longrightarrow> dense (ps @ [nextPos ps])"
proof -
  assume d: "dense ps"
  then have n: "nextPos ps = int (length ps)" by (rule nextPos_dense)
  from d have "distinct ps" and "\<forall>p\<in>set ps. 0 \<le> p \<and> p < int (length ps)"
    by (simp_all add: dense_def list_all_iff)
  then show ?thesis unfolding n by (auto simp: dense_def list_all_iff)
qed

lemma all_dense_iff:
  "all_dense db \<longleftrightarrow>
     (\<forall>b\<in>set (boards_tbl db). dense (list_positions db (b_id b)))
     \<and> (\<forall>l\<in>set (lists_tbl db). dense (card_positions db (l_id l)))"
  by (simp add: all_dense_def list_all_iff)

lemma store_ok_iff:
  "store_ok db \<longleftrightarrow>
     distinct (map b_id (boards_tbl db))
     \<and> distinct (map l_id (lists_tbl db))
     \<and> distinct (map c_id (cards_tbl db))
     \<and> (\<forall>l\<in>set (lists_tbl db). board_exists db (l_board_id l) \<and> l_id l < next_list_id db)
     \<and> (\<forall>c\<in>set (cards_tbl db). list_exists db (c_list_id c) \<and> c_id c < next_card_id db)"
  by (simp add: store_ok_def list_all_iff)

lemma invariant_create_list:
  assumes inv: "invariant db"
  shows "invariant (snd (create_list err b title db))"
proof (cases "snd (create_list err b title db) = db")
  case True
  with inv show ?thesis by simp
next
  case False
  then have ex: "board_exists db b" and nf: "err Next_position = None" "err Insert_list = None"
    by (auto simp: create_list_def Let_def split: option.splits if_splits)
  define row where "row = \<lparr>l_id = next_list_id db, l_board_id = b, l_title = title,
       l_position = nextPos (list_positions db b)\<rparr>"
  define db' where "db' = db\<lparr>lists_tbl := lists_tbl db @ [row],
       next_list_id := next_list_id db + 1\<rparr>"
  have res: "snd (create_list err b title db) = db'"
    using ex nf
    by (simp add: create_list_def Let_def db'_def row_def list_positions_def lists_of_def
        sql_select_def)
  from inv have ok: "store_ok db" and dn: "all_dense db" by (simp_all add: invariant_def)
  note ok' = ok [unfolded store_ok_iff]
  note dn' = dn [unfolded all_dense_iff]
  have fresh: "next_list_id db \<notin> set (map l_id (lists_tbl db))"
    using ok' by auto
  have "c_list_id c \<noteq> next_list_id db" if "c \<in> set (cards_tbl db)" for c
  proof -
    from that ok' have "c_list_id c \<in> set (map l_id (lists_tbl db))"
      unfolding list_exists_def by blast
    with fresh show ?thesis by metis
  qed
  then have nocards: "filter (\<lambda>c. c_list_id c = next_list_id db) (cards_tbl db) = []"
    by (simp add: filter_empty_conv)
  have "store_ok db'"
    unfolding store_ok_iff
    using ok' fresh ex
    by (auto simp: db'_def row_def list_exists_def board_exists_def)
  moreover have "all_dense db'"
    unfolding all_dense_iff
  proof (intro conjI ballI)
    fix bb assume "bb \<in> set (boards_tbl db')"
    then have bb: "bb \<in> set (boards_tbl db)" by (simp add: db'_def)
    show "dense (list_positions db' (b_id bb))"
    proof (cases "b_id bb = b")
      case True
      have "list_positions db' b = list_positions db b @ [nextPos (list_positions db b)]"
        by (simp add: db'_def row_def list_positions_def lists_of_def)
      moreover from dn' bb True have "dense (list_positions db b)" by auto
      ultimately show ?thesis using True by (simp add: dense_snoc)
    next
      case False
      then have "list_positions db' (b_id bb) = list_positions db (b_id bb)"
        by (simp add: db'_def row_def list_positions_def lists_of_def)
      with dn' bb show ?thesis by simp
    qed
  next
    fix ll assume "ll \<in> set (lists_tbl db')"
    then consider "ll \<in> set (lists_tbl db)" | "ll = row" by (auto simp: db'_def)
    then show "dense (card_positions db' (l_id ll))"
    proof cases
      case 1
      have "card_positions db' (l_id ll) = card_positions db (l_id ll)"
        by (simp add: db'_def card_positions_def cards_of_def)
      with dn' 1 show ?thesis by simp
    next
      case 2
      then have "card_positions db' (l_id ll) = []"
        using nocards by (simp add: db'_def row_def card_positions_def cards_of_def)
      then show ?thesis by (simp add: dense_def)
    qed
  qed
  ultimately show ?thesis by (simp add: res invariant_def)
qed


lemma insert_card_state:
  "snd (insert_card err req pos date db) = db
   \<or> (list_exists db (r_list_id req)
      \<and> snd (insert_card err req pos date db) =
          db\<lparr>cards_tbl := cards_tbl db @
               [\<lparr>c_id = next_card_id db, c_list_id = r_list_id req, c_title = r_title req,
                 c_description = or_default (r_description req) [], c_position = pos,
                 c_priority = or_default (r_priority req) ''medium'', c_due_date = date\<rparr>],
             next_card_id := next_card_id db + 1\<rparr>)"
  by (simp add: insert_card_def Let_def split: option.split)

lemma create_card_state:
  "snd (create_card err req db) = db
   \<or> (\<exists>date. snd (create_card err req db) =
         snd (insert_card err req (nextPos (card_positions db (r_list_id req))) date db))"
proof (cases "err Next_position")
  case (Some e)
  then show ?thesis by (simp add: create_card_def)
next
  case None
  have pos: "nextPos (map c_position (sql_select (\<lambda>c. c_list_id c = r_list_id req)
      (cards_tbl db))) = nextPos (card_positions db (r_list_id req))"
    by (simp add: card_positions_def cards_of_def sql_select_def)
  show ?thesis
  proof (cases "r_due_date req")
    case Due_undefined
    with None show ?thesis by (auto simp: create_card_def pos)
  next
    case Due_null
    with None show ?thesis by (auto simp: create_card_def pos)
  next
    case (Due_string s)
    with None show ?thesis
      by (cases "formattedDate s") (auto simp: create_card_def pos)
  qed
qed

lemma invariant_create_card:
  assumes inv: "invariant db"
  shows "invariant (snd (create_card err req db))"
proof (cases "snd (create_card err req db) = db")
  case True
  with inv show ?thesis by simp
next
  case False
  define l where "l = r_list_id req"
  from False create_card_state [of err req db] obtain date where
    "snd (create_card err req db) =
       snd (insert_card err req (nextPos (card_positions db l)) date db)"
    by (auto simp: l_def)
  with False insert_card_state [of err req "nextPos (card_positions db l)" date db]
  obtain row where ex: "list_exists db l"
    and res: "snd (create_card err req db) =
        db\<lparr>cards_tbl := cards_tbl db @ [row], next_card_id := next_card_id db + 1\<rparr>"
    and row: "c_id row = next_card_id db" "c_list_id row = l"
      "c_position row = nextPos (card_positions db l)"
    by (auto simp: l_def)
  define db' where "db' = db\<lparr>cards_tbl := cards_tbl db @ [row],
      next_card_id := next_card_id db + 1\<rparr>"
  from inv have ok: "store_ok db" and dn: "all_dense db" by (simp_all add: invariant_def)
  note ok' = ok [unfolded store_ok_iff]
  note dn' = dn [unfolded all_dense_iff]
  have fresh: "next_card_id db \<notin> set (map c_id (cards_tbl db))"
    using ok' by auto
  have "store_ok db'"
    unfolding store_ok_iff
    using ok' fresh ex row
    by (auto simp: db'_def list_exists_def board_exists_def)
  moreover have "all_dense db'"
    unfolding all_dense_iff
  proof (intro conjI ballI)
    fix bb assume "bb \<in> set (boards_tbl db')"
    then have bb: "bb \<in> set (boards_tbl db)" by (simp add: db'_def)
    have "list_positions db' (b_id bb) = list_positions db (b_id bb)"
      by (simp add: db'_def list_positions_def lists_of_def)
    with dn' bb show "dense (list_positions db' (b_id bb))" by simp
  next
    fix ll assume "ll \<in> set (lists_tbl db')"
    then have ll: "ll \<in> set (lists_tbl db)" by (simp add: db'_def)
    with dn' have d: "dense (card_positions db (l_id ll))" by auto
    show "dense (card_positions db' (l_id ll))"
    proof (cases "l_id ll = l")
      case True
      have "card_positions db' l = card_positions db l @ [nextPos (card_positions db l)]"
        using row by (simp add: db'_def card_positions_def cards_of_def)
      with d True show ?thesis by (simp add: dense_snoc)
    next
      case False
      then have "card_positions db' (l_id ll) = card_positions db (l_id ll)"
        using row by (simp add: db'_def card_positions_def cards_of_def)
      with d show ?thesis by simp
    qed
  qed
  ultimately show ?thesis by (simp add: res invariant_def db'_def)
qed


lemma across_list_id:
  "c_list_id (across cardId a p b t c) = (if c_id c = cardId then b else c_list_id c)"
  by (simp add: across_def)

lemma store_ok_map_cards:
  assumes "store_ok db" and "\<And>c. c_id (g c) = c_id c"
    and "\<And>c. c \<in> set (cards_tbl db) \<Longrightarrow> list_exists db (c_list_id (g c))"
  shows "store_ok (db\<lparr>cards_tbl := map g (cards_tbl db)\<rparr>)"
proof -
  have "c_id \<circ> g = c_id" by (rule ext) (simp add: assms(2))
  with assms(1,3) show ?thesis
    unfolding store_ok_iff
    by (auto simp: assms(2) list_exists_def board_exists_def)
qed

lemma list_positions_cards [simp]:
  "list_positions (db\<lparr>cards_tbl := cs\<rparr>) b = list_positions db b"
  by (simp add: list_positions_def lists_of_def)

lemma within_elsewhere:
  assumes ids: "distinct (map c_id cs)"
    and x: "x \<in> set cs" "c_id x = cardId" "c_list_id x = l"
    and ll: "ll \<noteq> l"
  shows "map (\<lambda>c. c_position (within cardId l p t c)) (filter (\<lambda>c. c_list_id c = ll) cs) =
           map c_position (filter (\<lambda>c. c_list_id c = ll) cs)"
proof (rule map_cong [OF refl])
  fix c assume "c \<in> set (filter (\<lambda>c. c_list_id c = ll) cs)"
  then have c: "c \<in> set cs" "c_list_id c = ll" by auto
  with ll x have "c_id c \<noteq> cardId" using key_unique [OF ids x(1), of c] by auto
  with c ll show "c_position (within cardId l p t c) = c_position c"
    by (simp add: within_def)
qed

lemma invariant_within:
  assumes inv: "invariant db"
    and x: "x \<in> set (cards_tbl db)" "c_id x = cardId" "c_list_id x = l"
    and t: "0 \<le> t" "t < int (length (cards_of db l))"
  shows "invariant (db\<lparr>cards_tbl := map (within cardId l (c_position x) t) (cards_tbl db)\<rparr>)"
proof -
  let ?g = "within cardId l (c_position x) t"
  let ?db' = "db\<lparr>cards_tbl := map ?g (cards_tbl db)\<rparr>"
  from inv have ok: "store_ok db" and dn: "all_dense db" by (simp_all add: invariant_def)
  note ok' = ok [unfolded store_ok_iff]
  note dn' = dn [unfolded all_dense_iff]
  from ok' have ids: "distinct (map c_id (cards_tbl db))" by simp
  have "store_ok ?db'"
    by (rule store_ok_map_cards [OF ok]) (use ok' in simp_all)
  moreover have "all_dense ?db'"
    unfolding all_dense_iff
  proof (intro conjI ballI)
    fix bb assume "bb \<in> set (boards_tbl ?db')"
    with dn' show "dense (list_positions ?db' (b_id bb))" by simp
  next
    fix ll assume "ll \<in> set (lists_tbl ?db')"
    then have "ll \<in> set (lists_tbl db)" by simp
    with dn' have d: "dense (card_positions db (l_id ll))" by auto
    have cp: "card_positions ?db' k =
        map (\<lambda>c. c_position (?g c)) (filter (\<lambda>c. c_list_id c = k) (cards_tbl db))" for k
      by (simp add: card_positions_map)
    show "dense (card_positions ?db' (l_id ll))"
    proof (cases "l_id ll = l")
      case True
      from within_dense [OF ids x refl d [unfolded card_positions_rows True] t(1)] t(2)
      show ?thesis unfolding True cp by (simp add: cards_of_def)
    next
      case False
      have "card_positions ?db' (l_id ll) =
          map c_position (filter (\<lambda>c. c_list_id c = l_id ll) (cards_tbl db))"
        unfolding cp by (rule within_elsewhere [OF ids x False])
      also have "\<dots> = card_positions db (l_id ll)" by (simp only: card_positions_rows)
      finally show ?thesis using d by simp
    qed
  qed
  ultimately show ?thesis by (simp add: invariant_def)
qed

lemma invariant_across:
  assumes inv: "invariant db"
    and x: "x \<in> set (cards_tbl db)" "c_id x = cardId" "c_list_id x \<noteq> l"
    and l: "list_exists db l"
    and t: "0 \<le> t" "t \<le> int (length (cards_of db l))"
  shows "invariant (db\<lparr>cards_tbl :=
           map (across cardId (c_list_id x) (c_position x) l t) (cards_tbl db)\<rparr>)"
proof -
  let ?g = "across cardId (c_list_id x) (c_position x) l t"
  let ?db' = "db\<lparr>cards_tbl := map ?g (cards_tbl db)\<rparr>"
  from inv have ok: "store_ok db" and dn: "all_dense db" by (simp_all add: invariant_def)
  note ok' = ok [unfolded store_ok_iff]
  note dn' = dn [unfolded all_dense_iff]
  from ok' have ids: "distinct (map c_id (cards_tbl db))" by simp
  have ne: "l \<noteq> c_list_id x" using x(3) by simp
  have "store_ok ?db'"
    by (rule store_ok_map_cards [OF ok]) (use ok' l in \<open>simp_all add: across_list_id\<close>)
  moreover have "all_dense ?db'"
    unfolding all_dense_iff
  proof (intro conjI ballI)
    fix bb assume "bb \<in> set (boards_tbl ?db')"
    with dn' show "dense (list_positions ?db' (b_id bb))" by simp
  next
    fix ll assume "ll \<in> set (lists_tbl ?db')"
    then have "ll \<in> set (lists_tbl db)" by simp
    with dn' have d: "dense (card_positions db (l_id ll))" by auto
    have cp: "card_positions ?db' k =
        map (\<lambda>c. c_position (?g c)) (filter (\<lambda>c. c_list_id (?g c) = k) (cards_tbl db))" for k
      by (simp add: card_positions_map)
    consider (src) "l_id ll = c_list_id x" | (tgt) "l_id ll = l"
      | (other) "l_id ll \<noteq> c_list_id x" "l_id ll \<noteq> l" by blast
    then show "dense (card_positions ?db' (l_id ll))"
    proof cases
      case src
      from across_source_dense(2) [OF ids x(1,2) refl refl ne
          d [unfolded card_positions_rows src], of t]
      show ?thesis unfolding src cp .
    next
      case tgt
      from t(2) have t': "t \<le> int (length (filter (\<lambda>c. c_list_id c = l) (cards_tbl db)))"
        by (simp add: cards_of_def)
      from across_target_dense(2) [OF ids x(1,2) refl refl ne
          d [unfolded card_positions_rows tgt] t(1) t']
      show ?thesis unfolding tgt cp .
    next
      case other
      have "map (\<lambda>c. c_position (?g c))
          (filter (\<lambda>c. c_list_id (?g c) = l_id ll) (cards_tbl db)) =
          map c_position (map ?g (filter (\<lambda>c. c_list_id (?g c) = l_id ll) (cards_tbl db)))"
        by (simp add: comp_def)
      also have "\<dots> = map c_position (filter (\<lambda>c. c_list_id c = l_id ll) (cards_tbl db))"
        using across_other [OF ids x(1,2) refl other, of "c_position x" t] by simp
      also have "\<dots> = card_positions db (l_id ll)" by (simp only: card_positions_rows)
      finally show ?thesis unfolding cp using d by simp
    qed
  qed
  ultimately show ?thesis by (simp add: invariant_def)
qed


lemma move_card_state:
  assumes ok: "store_ok db"
  shows "snd (move_card no_failures cardId l t db) = db
   \<or> (\<exists>x\<in>set (cards_tbl db). c_id x = cardId \<and> c_list_id x = l
        \<and> sql_select (\<lambda>c. c_id c = cardId) (cards_tbl db) = [x]
        \<and> snd (move_card no_failures cardId l t db) =
            db\<lparr>cards_tbl := map (within cardId l (c_position x) t) (cards_tbl db)\<rparr>)
   \<or> (\<exists>x\<in>set (cards_tbl db). c_id x = cardId \<and> c_list_id x \<noteq> l \<and> list_exists db l
        \<and> sql_select (\<lambda>c. c_id c = cardId) (cards_tbl db) = [x]
        \<and> snd (move_card no_failures cardId l t db) =
            db\<lparr>cards_tbl :=
                 map (across cardId (c_list_id x) (c_position x) l t) (cards_tbl db)\<rparr>)"
proof (cases "cardId \<in> set (map c_id (cards_tbl db))")
  case False
  then have "sql_select (\<lambda>c. c_id c = cardId) (cards_tbl db) = []"
    by (auto simp: sql_select_def filter_empty_conv)
  then show ?thesis by (simp add: move_card_def no_failures_def rollback_def)
next
  case True
  then obtain x where x: "x \<in> set (cards_tbl db)" "c_id x = cardId" by auto
  from ok have ids: "distinct (map c_id (cards_tbl db))"
    and fk: "list_exists db (c_list_id x)"
    using x(1) by (auto simp: store_ok_iff)
  have sel: "sql_select (\<lambda>c. c_id c = cardId) (cards_tbl db) = [x]"
    using select_by_key [OF ids x(1)] x(2) by simp
  show ?thesis
  proof (cases "c_list_id x = l")
    case True
    from move_card_within [OF ids x True refl, of t] fk True x sel
    show ?thesis by auto
  next
    case ne: False
    show ?thesis
    proof (cases "list_exists db l")
      case True
      from move_card_across [OF ids x refl refl _ True, of t] ne x sel True
      show ?thesis by auto
    next
      case False
      with ne have "move_card no_failures cardId l t db = (Json_error 500 fk_message, db)"
        by (simp add: move_card_def updateCardPosition_def sel no_failures_def rollback_def
            list_exists_def Let_def)
      then show ?thesis by simp
    qed
  qed
qed

lemma invariant_move_card:
  assumes inv: "invariant db" and r: "move_in_range db cardId l t"
  shows "invariant (snd (move_card err cardId l t db))"
proof -
  from inv have ok: "store_ok db" by (simp add: invariant_def)
  have "snd (move_card err cardId l t db) = db
      \<or> snd (move_card err cardId l t db) = snd (move_card no_failures cardId l t db)"
    using move_card_outcome [of err cardId l t db] by (metis snd_conv)
  moreover have "invariant (snd (move_card no_failures cardId l t db))"
    using move_card_state [OF ok, of cardId l t]
  proof (elim disjE bexE conjE)
    assume "snd (move_card no_failures cardId l t db) = db"
    with inv show ?thesis by simp
  next
    fix x
    assume x: "x \<in> set (cards_tbl db)" "c_id x = cardId" "c_list_id x = l"
      and sel: "sql_select (\<lambda>c. c_id c = cardId) (cards_tbl db) = [x]"
      and res: "snd (move_card no_failures cardId l t db) =
            db\<lparr>cards_tbl := map (within cardId l (c_position x) t) (cards_tbl db)\<rparr>"
    from r sel x(3) have "0 \<le> t" "t < int (length (cards_of db l))"
      by (simp_all add: move_in_range_def)
    from invariant_within [OF inv x this] show ?thesis by (simp add: res)
  next
    fix x
    assume x: "x \<in> set (cards_tbl db)" "c_id x = cardId" "c_list_id x \<noteq> l"
      and l: "list_exists db l"
      and sel: "sql_select (\<lambda>c. c_id c = cardId) (cards_tbl db) = [x]"
      and res: "snd (move_card no_failures cardId l t db) =
            db\<lparr>cards_tbl :=
                 map (across cardId (c_list_id x) (c_position x) l t) (cards_tbl db)\<rparr>"
    from r sel x(3) have "0 \<le> t" "t \<le> int (length (cards_of db l))"
      by (simp_all add: move_in_range_def)
    from invariant_across [OF inv x l this] show ?thesis by (simp add: res)
  qed
  ultimately show ?thesis using inv by auto
qed

lemma card_positions_lists [simp]:
  "card_positions (db\<lparr>lists_tbl := ls\<rparr>) l = card_positions db l"
  by (simp add: card_positions_def cards_of_def)

lemma invariant_reorder_list:
  assumes inv: "invariant db"
  shows "invariant (snd (reorder_list err listId position db))"
proof -
  from inv have ok: "store_ok db" and dn: "all_dense db" by (simp_all add: invariant_def)
  note ok' = ok [unfolded store_ok_iff]
  note dn' = dn [unfolded all_dense_iff]
  from ok' have ids: "distinct (map l_id (lists_tbl db))" by simp
  have "snd (reorder_list err listId position db) = db
      \<or> snd (reorder_list err listId position db) =
          snd (reorder_list no_failures listId position db)"
    using reorder_list_outcome [of err listId position db] by (metis snd_conv)
  moreover have "invariant (snd (reorder_list no_failures listId position db))"
  proof (cases "listId \<in> set (map l_id (lists_tbl db))")
    case False
    then have "sql_select (\<lambda>l. l_id l = listId) (lists_tbl db) = []"
      by (auto simp: sql_select_def filter_empty_conv)
    then have "snd (reorder_list no_failures listId position db) = db"
      by (simp add: reorder_list_def no_failures_def rollback_def)
    with inv show ?thesis by simp
  next
    case True
    then obtain cur where cur: "cur \<in> set (lists_tbl db)" "l_id cur = listId" by auto
    let ?R = "resequenced listId position cur db"
    let ?db' = "db\<lparr>lists_tbl := map (renumber ?R 0) (lists_tbl db)\<rparr>"
    have res: "snd (reorder_list no_failures listId position db) = ?db'"
      using reorder_list_result [OF ids cur, of position] by simp
    have "l_id \<circ> renumber ?R 0 = l_id" by (rule ext) simp
    then have "store_ok ?db'"
      using ok' unfolding store_ok_iff
      by (auto simp: list_exists_def board_exists_def)
    moreover have "all_dense ?db'"
      unfolding all_dense_iff
    proof (intro conjI ballI)
      fix bb assume "bb \<in> set (boards_tbl ?db')"
      then have bb: "bb \<in> set (boards_tbl db)" by simp
      have lp: "list_positions ?db' b = map l_position (map (renumber ?R 0) (lists_of db b))" for b
        by (simp add: list_positions_def lists_of_renumber)
      show "dense (list_positions ?db' (b_id bb))"
      proof (cases "b_id bb = l_board_id cur")
        case True
        from renumbered_dense [OF ids cur, of position]
        show ?thesis unfolding True lp .
      next
        case False
        from dn' bb have "dense (list_positions db (b_id bb))" by auto
        then show ?thesis
          unfolding lp renumbered_elsewhere [OF ids cur False]
          by (simp add: list_positions_def)
      qed
    next
      fix ll assume "ll \<in> set (lists_tbl ?db')"
      then obtain l0 where "l0 \<in> set (lists_tbl db)" "l_id ll = l_id l0" by auto
      with dn' show "dense (card_positions ?db' (l_id ll))" by auto
    qed
    ultimately show ?thesis by (simp add: res invariant_def)
  qed
  ultimately show ?thesis using inv by auto
qed

lemma invariant_handle:
  assumes "invariant db" and "in_range db req"
  shows "invariant (snd (handle err req db))"
  using assms
  by (cases req)
    (simp_all add: invariant_create_list invariant_create_card invariant_move_card
      invariant_reorder_list)

lemma invariant_run:
  "invariant db \<Longrightarrow> all_in_range rs db \<Longrightarrow> invariant (run rs db)"
proof (induction rs arbitrary: db)
  case Nil
  then show ?case by simp
next
  case (Cons a rs)
  obtain err req where a: "a = (err, req)" by (cases a)
  from Cons.prems have "in_range db req" "all_in_range rs (snd (handle err req db))"
    by (simp_all add: a)
  with Cons.prems(1) Cons.IH [of "snd (handle err req db)"] show ?case
    by (simp add: a invariant_handle)
qed

text \<open>
  Claim C1, as amended. From a state that satisfies the constraints of the schema and in
  which every group is dense, after any sequence of list creations, card creations,
  card moves whose target is in range, and list reorders (to any position), whichever
  statements fail along the way: the constraints still hold, the positions of each
  board's lists are without duplicates and are exactly \<open>{0, ..., n-1}\<close> for its \<open>n\<close>
  lists, and the positions of each list's cards are without duplicates and are exactly
  \<open>{0, ..., m-1}\<close> for its \<open>m\<close> cards. Deletions are not among these requests.
\<close>

theorem density_invariant:
  assumes "store_ok db" and "all_dense db" and "all_in_range rs db"
  shows "store_ok (run rs db) \<and> all_dense (run rs db)
     \<and> (\<forall>b\<in>set (boards_tbl (run rs db)).
           distinct (list_positions (run rs db) (b_id b))
           \<and> set (list_positions (run rs db) (b_id b)) =
               {0..<int (length (lists_of (run rs db) (b_id b)))})
     \<and> (\<forall>l\<in>set (lists_tbl (run rs db)).
           distinct (card_positions (run rs db) (l_id l))
           \<and> set (card_positions (run rs db) (l_id l)) =
               {0..<int (length (cards_of (run rs db) (l_id l)))})"
proof -
  from assms have "invariant (run rs db)"
    by (intro invariant_run) (simp_all add: invariant_def)
  then have ok: "store_ok (run rs db)" and dn: "all_dense (run rs db)"
    by (simp_all add: invariant_def)
  from dn show ?thesis
    using ok
    by (simp add: all_dense_iff dense_set_eq list_positions_def card_positions_def)
qed

lemma session_run:
  "run session seeded =
     seeded\<lparr>lists_tbl := [\<lparr>l_id = 1, l_board_id = 1, l_title = ''To Do'', l_position = 1\<rparr>,
                   \<lparr>l_id = 2, l_board_id = 1, l_title = ''In Progress'', l_position = 2\<rparr>,
                   \<lparr>l_id = 3, l_board_id = 1, l_title = ''Done'', l_position = 0\<rparr>],
           cards_tbl := [new_card 1 2 ''A'' 0, new_card 2 1 ''B'' 0],
           next_card_id := 3\<rparr>"
  by (simp add: session_def seeded_def plain_request_def new_card_def fails_at_def
      create_card_def insert_card_def move_card_def updateCardPosition_def reorder_list_def
      resequenced_def splice_insert_def update_errors_def List.map_filter_def rollback_def
      no_failures_def sql_select_def sql_update_def nextPos_def sql_max_def or_default_def
      list_exists_def date_accepted_def Let_def)

theorem density_invariant_witness:
  "store_ok (run session seeded) \<and> all_dense (run session seeded)
   \<and> card_positions (run session seeded) 1 = [0]
   \<and> card_positions (run session seeded) 2 = [0]
   \<and> list_positions (run session seeded) 1 = [1, 2, 0]
   \<and> set (list_positions (run session seeded) 1) = {0..<3}"
proof -
  have h1: "store_ok seeded"
    by (simp add: seeded_def store_ok_def board_exists_def list_exists_def)
  have h2: "all_dense seeded"
    by (simp add: seeded_def all_dense_def dense_def list_positions_def lists_of_def
        card_positions_def cards_of_def)
  have h3: "all_in_range session seeded"
    by (simp add: session_def seeded_def plain_request_def new_card_def fails_at_def
      move_in_range_def cards_of_def
      create_card_def insert_card_def move_card_def updateCardPosition_def reorder_list_def
      resequenced_def splice_insert_def update_errors_def List.map_filter_def rollback_def
      no_failures_def sql_select_def sql_update_def nextPos_def sql_max_def or_default_def
      list_exists_def date_accepted_def Let_def)
  note w = density_invariant [OF h1 h2 h3]
  have b: "\<lparr>b_id = 1, b_title = ''KanBan Board'',
      b_description = ''Welcome to your Kanban board!''\<rparr> \<in> set (boards_tbl (run session seeded))"
    by (simp add: session_run) (simp add: seeded_def)
  have n: "length (lists_of (run session seeded) 1) = 3"
    by (simp add: session_run lists_of_def)
  from w b have "set (list_positions (run session seeded) 1) =
      {0..<int (length (lists_of (run session seeded) 1))}"
    by fastforce
  then have "set (list_positions (run session seeded) 1) = {0..<3}"
    by (simp add: n)
  moreover have "card_positions (run session seeded) 1 = [0]"
    "card_positions (run session seeded) 2 = [0]"
    "list_positions (run session seeded) 1 = [1, 2, 0]"
    by (simp_all add: session_run card_positions_def cards_of_def list_positions_def
        lists_of_def new_card_def)
  ultimately show ?thesis using w by simp
qed

text \<open>
  The claim as written covers every completed request. A move within a list of three
  cards to position 7 is accepted and leaves the positions 0, 1, 7; the deletion of the
  first of three cards leaves the positions 1, 2.
\<close>

theorem density_broken:
  "store_ok scenario_abc \<and> all_dense scenario_abc
   \<and> handle no_failures (PUT_cards_move 3 1 7) scenario_abc =
       (Json_success,
        scenario_abc\<lparr>cards_tbl :=
          [new_card 1 1 ''A'' 0, new_card 2 1 ''B'' 1, new_card 3 1 ''C'' 7]\<rparr>)
   \<and> \<not> all_dense (run [(no_failures, PUT_cards_move 3 1 7)] scenario_abc)
   \<and> handle no_failures (DELETE_cards 1) scenario_abc =
       (Json_success,
        scenario_abc\<lparr>cards_tbl := [new_card 2 1 ''B'' 1, new_card 3 1 ''C'' 2]\<rparr>)
   \<and> \<not> all_dense (run [(no_failures, DELETE_cards 1)] scenario_abc)"
proof -
  have 1: "store_ok scenario_abc"
    by (simp add: scenario_abc_def seeded_def new_card_def store_ok_def board_exists_def
        list_exists_def)
  have 2: "all_dense scenario_abc"
    by (simp add: scenario_abc_def seeded_def new_card_def all_dense_def dense_def
        list_positions_def lists_of_def card_positions_def cards_of_def)
  have 3: "handle no_failures (PUT_cards_move 3 1 7) scenario_abc =
       (Json_success,
        scenario_abc\<lparr>cards_tbl :=
          [new_card 1 1 ''A'' 0, new_card 2 1 ''B'' 1, new_card 3 1 ''C'' 7]\<rparr>)"
    by (simp add: scenario_abc_def seeded_def new_card_def move_card_def
        updateCardPosition_def no_failures_def sql_select_def sql_update_def list_exists_def)
  have 4: "handle no_failures (DELETE_cards 1) scenario_abc =
       (Json_success,
        scenario_abc\<lparr>cards_tbl := [new_card 2 1 ''B'' 1, new_card 3 1 ''C'' 2]\<rparr>)"
    by (simp add: scenario_abc_def seeded_def new_card_def delete_card_def no_failures_def
        sql_delete_def)
  have 5: "\<not> all_dense (run [(no_failures, PUT_cards_move 3 1 7)] scenario_abc)"
    unfolding run.simps 3 snd_conv
    by (simp add: scenario_abc_def seeded_def new_card_def all_dense_def dense_def
        list_positions_def lists_of_def card_positions_def cards_of_def)
  have 6: "\<not> all_dense (run [(no_failures, DELETE_cards 1)] scenario_abc)"
    unfolding run.simps 4 snd_conv
    by (simp add: scenario_abc_def seeded_def new_card_def all_dense_def dense_def
        list_positions_def lists_of_def card_positions_def cards_of_def)
  from 1 2 3 4 5 6 show ?thesis by blast
qed

end
